theory Spec2Isabelle
  imports Main "HOL-Library.Sublist"
begin

section \<open>JavaScript strings and values\<close>

text \<open>
  A JavaScript string is modelled as a \<^typ>\<open>string\<close>: one \<^typ>\<open>char\<close> per code unit, for the
  code units below 256. The character classes below are the ones the regular expressions of
  \<^verbatim>\<open>Formatter.ts\<close> use, restricted to that range: \<^verbatim>\<open>\s\<close> (white space and line
  terminators), \<^verbatim>\<open>\w\<close>, \<^verbatim>\<open>[A-Z]\<close>, and the line terminators that \<^verbatim>\<open>.\<close>
  refuses and that the flag \<^verbatim>\<open>m\<close> makes \<^verbatim>\<open>^\<close> and \<^verbatim>\<open>$\<close> look at.
\<close>

definition isSpace :: "char \<Rightarrow> bool" where
  "isSpace c = (c \<in> set [CHR 0x09, CHR 0x0A, CHR 0x0B, CHR 0x0C, CHR 0x0D, CHR 0x20, CHR 0xA0])"

definition isWord :: "char \<Rightarrow> bool" where
  "isWord c =
     (let n = (of_char c :: nat)
      in (65 \<le> n \<and> n \<le> 90) \<or> (97 \<le> n \<and> n \<le> 122) \<or> (48 \<le> n \<and> n \<le> 57) \<or> n = 95)"

definition isUpper :: "char \<Rightarrow> bool" where
  "isUpper c = (let n = (of_char c :: nat) in 65 \<le> n \<and> n \<le> 90)"

definition isLineTerminator :: "char \<Rightarrow> bool" where
  "isLineTerminator c = (c = CHR 0x0A \<or> c = CHR 0x0D)"

text \<open>\<^verbatim>\<open>s.split('\n')\<close>: never empty, the empty string gives one empty line.\<close>

fun splitLines :: "string \<Rightarrow> string list" where
  "splitLines [] = [[]]"
| "splitLines (c # cs) =
     (if c = CHR 0x0A then [] # splitLines cs
      else (case splitLines cs of [] \<Rightarrow> [[c]] | l # ls \<Rightarrow> (c # l) # ls))"

text \<open>\<^verbatim>\<open>xs.join('\n')\<close>: the empty array gives the empty string.\<close>

fun joinLines :: "string list \<Rightarrow> string" where
  "joinLines [] = []"
| "joinLines [l] = l"
| "joinLines (l # m # ls) = l @ CHR 0x0A # joinLines (m # ls)"

text \<open>
  An unanchored \<^verbatim>\<open>re.test(s)\<close>: the pattern is tried at every index of the string, the
  end included.
\<close>

fun searchFrom :: "(string \<Rightarrow> bool) \<Rightarrow> string \<Rightarrow> bool" where
  "searchFrom P [] = P []"
| "searchFrom P (c # cs) = (P (c # cs) \<or> searchFrom P cs)"

text \<open>
  The values found in the properties \<^verbatim>\<open>showDiff\<close>, \<^verbatim>\<open>actual\<close> and \<^verbatim>\<open>expected\<close>,
  with the two operations the formatter applies to them: \<^verbatim>\<open>typeof\<close> and the conversion to a
  boolean of a condition. Numbers are the integers.
\<close>

datatype jsval =
    JUndefined
  | JNull
  | JBoolean bool
  | JNumber int
  | JString string
  | JObject "(string \<times> jsval) list"
  | JArray "jsval list"
  | JFunction string

fun typeof :: "jsval \<Rightarrow> string" where
  "typeof JUndefined = ''undefined''"
| "typeof JNull = ''object''"
| "typeof (JBoolean b) = ''boolean''"
| "typeof (JNumber n) = ''number''"
| "typeof (JString s) = ''string''"
| "typeof (JObject ps) = ''object''"
| "typeof (JArray xs) = ''object''"
| "typeof (JFunction src) = ''function''"

fun truthy :: "jsval \<Rightarrow> bool" where
  "truthy JUndefined = False"
| "truthy JNull = False"
| "truthy (JBoolean b) = b"
| "truthy (JNumber n) = (n \<noteq> 0)"
| "truthy (JString s) = (s \<noteq> [])"
| "truthy (JObject ps) = True"
| "truthy (JArray xs) = True"
| "truthy (JFunction src) = True"

text \<open>
  An optional string property: \<open>None\<close> is a missing property (\<^verbatim>\<open>undefined\<close>).
  \<open>truthyStr\<close> is the property used as a condition, \<open>strOr\<close> is \<^verbatim>\<open>x || d\<close>, and
  \<open>toStr\<close> is \<^verbatim>\<open>String(x)\<close>, which is also what \<^verbatim>\<open>indexOf\<close> searches for.
\<close>

fun truthyStr :: "string option \<Rightarrow> bool" where
  "truthyStr None = False"
| "truthyStr (Some s) = (s \<noteq> [])"

definition strOr :: "string option \<Rightarrow> string \<Rightarrow> string" where
  "strOr x d = (case x of None \<Rightarrow> d | Some s \<Rightarrow> if s \<noteq> [] then s else d)"

fun toStr :: "string option \<Rightarrow> string" where
  "toStr None = ''undefined''"
| "toStr (Some s) = s"

section \<open>The data of \<^verbatim>\<open>Formatter.ts\<close>\<close>

text \<open>
  The error object as \<^verbatim>\<open>format\<close> reads it: the properties of \<^verbatim>\<open>Error\<close> and
  \<^verbatim>\<open>InternError\<close>, the location properties read through \<^verbatim>\<open>anyError\<close>, and
  \<open>asString\<close>, the value of \<^verbatim>\<open>String(error)\<close>. Of \<^verbatim>\<open>lineNumber\<close> and
  \<^verbatim>\<open>columnNumber\<close> the code asks whether they are \<^verbatim>\<open>null\<close> or
  \<^verbatim>\<open>undefined\<close> (here \<open>None\<close>) and otherwise appends them to a string: the
  property is modelled by the text that this appends, the string conversion that the
  language gives the value (the digits \<^verbatim>\<open>12\<close> for the number 12, \<^verbatim>\<open>1e+21\<close> for
  the number \<open>10\<^sup>2\<^sup>1\<close>).
\<close>

record internError =
  name :: "string option"
  message :: "string option"
  stack :: "string option"
  showDiff :: jsval
  actual :: jsval
  expected :: jsval
  fileName :: "string option"
  lineNumber :: "string option"
  columnNumber :: "string option"
  asString :: string

datatype errorLike = ErrString string | ErrObject internError

record formatOptions =
  space :: "string option"

record formatterOptions =
  optFilterErrorStack :: "bool option"

text \<open>
  A formatter: the property \<^verbatim>\<open>filterErrorStack\<close> and the method \<^verbatim>\<open>_getSource\<close>,
  which a subclass may override.
\<close>

record formatter =
  filterErrorStack :: bool
  getSource :: "string \<Rightarrow> string"

text \<open>
  The two imports that \<^verbatim>\<open>createDiff\<close> calls and that are not part of this file:
  \<^verbatim>\<open>toJSON\<close> of \<^verbatim>\<open>./util\<close> and \<^verbatim>\<open>createPatch\<close> of the package \<^verbatim>\<open>diff\<close>.
  They are parameters of the model.
\<close>

record externals =
  toJSON :: "jsval \<Rightarrow> string"
  createPatch :: "string \<Rightarrow> string \<Rightarrow> string \<Rightarrow> string \<Rightarrow> string \<Rightarrow> string"

record frame =
  func :: "string option"
  source :: string

section \<open>The constructor\<close>

text \<open>
  \<^verbatim>\<open>filterErrorStack = false\<close>, then \<^verbatim>\<open>mixin(this, options)\<close> copies the properties
  that the options object has; with no argument the options are \<^verbatim>\<open>{}\<close>. The method
  \<^verbatim>\<open>_getSource\<close> of the class returns its argument.
\<close>

definition Formatter :: "formatterOptions option \<Rightarrow> formatter" where
  "Formatter options =
     (let opts = (case options of None \<Rightarrow> \<lparr>optFilterErrorStack = None\<rparr> | Some v \<Rightarrow> v)
      in \<lparr>filterErrorStack = (case optFilterErrorStack opts of None \<Rightarrow> False | Some b \<Rightarrow> b),
          getSource = (\<lambda>tracepath. tracepath)\<rparr>)"

section \<open>Trace lines\<close>

definition formatLine :: "frame \<Rightarrow> (string \<Rightarrow> string) \<Rightarrow> string" where
  "formatLine data getSrc =
     (if \<not> truthyStr (func data) then ''  at <'' @ getSrc (source data) @ ''>''
      else ''  at '' @ the (func data) @ ''  <'' @ getSrc (source data) @ ''>'')"

text \<open>
  \<^verbatim>\<open>/^\s*at (.+?) \(([^)]+)\)$/\<close>. The white space is followed by \<^verbatim>\<open>a\<close>, so it is the
  whole leading run. The lazy group tries the lengths 1, 2, ... in this order; each of its
  characters is one that \<^verbatim>\<open>.\<close> accepts; what follows it has to be a blank, an opening
  parenthesis, one or more characters other than the closing parenthesis, and the closing
  parenthesis at the end of the line.
\<close>

definition parenSource :: "string \<Rightarrow> string option" where
  "parenSource t =
     (if prefix '' ('' t \<and> drop 2 t \<noteq> [] \<and> last t = CHR '')''
         \<and> butlast (drop 2 t) \<noteq> [] \<and> CHR '')'' \<notin> set (butlast (drop 2 t))
      then Some (butlast (drop 2 t)) else None)"

definition matchChromeCall :: "string \<Rightarrow> (string \<times> string) option" where
  "matchChromeCall line =
     (let r = dropWhile isSpace line
      in if prefix ''at '' r
         then (let body = drop 3 r
               in (case find (\<lambda>n. list_all (\<lambda>c. \<not> isLineTerminator c) (take n body)
                                   \<and> parenSource (drop n body) \<noteq> None)
                              [1..<Suc (length body)] of
                     None \<Rightarrow> None
                   | Some n \<Rightarrow> Some (take n body, the (parenSource (drop n body)))))
         else None)"

text \<open>\<^verbatim>\<open>/^\s*at (.*)/\<close>: the group runs up to the first line terminator.\<close>

definition matchChromeAt :: "string \<Rightarrow> string option" where
  "matchChromeAt line =
     (let r = dropWhile isSpace line
      in if prefix ''at '' r then Some (takeWhile (\<lambda>c. \<not> isLineTerminator c) (drop 3 r))
         else None)"

definition chromeLine :: "(string \<Rightarrow> string) \<Rightarrow> string \<Rightarrow> string" where
  "chromeLine getSrc line =
     (case matchChromeCall line of
        Some (f, s) \<Rightarrow> formatLine \<lparr>func = Some f, source = s\<rparr> getSrc
      | None \<Rightarrow>
          (case matchChromeAt line of
             Some s \<Rightarrow> formatLine \<lparr>func = None, source = s\<rparr> getSrc
           | None \<Rightarrow> line))"

definition processChromeTrace :: "string list \<Rightarrow> (string \<Rightarrow> string) \<Rightarrow> string list" where
  "processChromeTrace lines getSrc = map (chromeLine getSrc) lines"

text \<open>
  \<^verbatim>\<open>/^([^@]+)@(.*)/\<close>: the first group is everything before the first \<^verbatim>\<open>@\<close> and is not
  empty; the second runs up to the first line terminator.
\<close>

definition matchSafariCall :: "string \<Rightarrow> (string \<times> string) option" where
  "matchSafariCall line =
     (let f = takeWhile (\<lambda>c. c \<noteq> CHR ''@'') line;
          r = dropWhile (\<lambda>c. c \<noteq> CHR ''@'') line
      in if f \<noteq> [] \<and> r \<noteq> []
         then Some (f, takeWhile (\<lambda>c. \<not> isLineTerminator c) (drop 1 r))
         else None)"

text \<open>
  \<^verbatim>\<open>/^(\w+:\/\/.*)/\<close>: the word characters are followed by a colon, so they are the
  whole leading run.
\<close>

definition matchSafariUrl :: "string \<Rightarrow> string option" where
  "matchSafariUrl line =
     (let w = takeWhile isWord line;
          r = dropWhile isWord line
      in if w \<noteq> [] \<and> prefix ''://'' r
         then Some (w @ ''://'' @ takeWhile (\<lambda>c. \<not> isLineTerminator c) (drop 3 r))
         else None)"

definition safariLine :: "(string \<Rightarrow> string) \<Rightarrow> string \<Rightarrow> string" where
  "safariLine getSrc line =
     (case matchSafariCall line of
        Some (f, s) \<Rightarrow> formatLine \<lparr>func = Some f, source = s\<rparr> getSrc
      | None \<Rightarrow>
          (case matchSafariUrl line of
             Some s \<Rightarrow> formatLine \<lparr>func = None, source = s\<rparr> getSrc
           | None \<Rightarrow> line))"

definition processSafariTrace :: "string list \<Rightarrow> (string \<Rightarrow> string) \<Rightarrow> string list" where
  "processSafariTrace lines getSrc = map (safariLine getSrc) lines"

section \<open>The stack normalizer\<close>

text \<open>\<^verbatim>\<open>stack.replace(/\s+$/, '')\<close>\<close>

definition trimEnd :: "string \<Rightarrow> string" where
  "trimEnd s = rev (dropWhile isSpace (rev s))"

text \<open>
  \<^verbatim>\<open>lines[0]\<close> as the argument of \<^verbatim>\<open>test\<close>: on the empty array it is
  \<^verbatim>\<open>undefined\<close>, which \<^verbatim>\<open>test\<close> converts to a string.
\<close>

definition lineAt0 :: "string list \<Rightarrow> string" where
  "lineAt0 ls = (case ls of [] \<Rightarrow> ''undefined'' | l # _ \<Rightarrow> l)"

text \<open>
  \<^verbatim>\<open>/^(?:[A-Z]\w+)?Error: /\<close>: either the line starts with \<^verbatim>\<open>Error: \<close>, or with a
  capital, then some number (one at least) of the word characters that follow, then
  \<^verbatim>\<open>Error: \<close>.
\<close>

definition isErrorHeader :: "string \<Rightarrow> bool" where
  "isErrorHeader line =
     (prefix ''Error: '' line \<or>
      (case line of
         [] \<Rightarrow> False
       | c # cs \<Rightarrow>
           isUpper c \<and>
           list_ex (\<lambda>n. prefix ''Error: '' (drop n cs)) [1..<Suc (length (takeWhile isWord cs))]))"

text \<open>\<^verbatim>\<open>/^\s*$/\<close> and \<^verbatim>\<open>/^\s*at /\<close>\<close>

definition isBlank :: "string \<Rightarrow> bool" where
  "isBlank line = list_all isSpace line"

definition startsWithAt :: "string \<Rightarrow> bool" where
  "startsWithAt line = prefix ''at '' (dropWhile isSpace line)"

text \<open>The loop \<^verbatim>\<open>while (/^\s*$/.test(lines[0])) lines = lines.slice(1)\<close>\<close>

function stripBlank :: "string list \<Rightarrow> string list" where
  "stripBlank ls = (if isBlank (lineAt0 ls) then stripBlank (drop 1 ls) else ls)"
  by pat_completeness auto
termination
proof (relation "measure length")
  show "wf (measure length)" by simp
next
  fix ls :: "string list"
  assume "isBlank (lineAt0 ls)"
  then have "ls \<noteq> []"
    by (auto simp: isBlank_def lineAt0_def isSpace_def)
  then show "(drop 1 ls, ls) \<in> measure length"
    by (cases ls) simp_all
qed

declare stripBlank.simps [simp del]

text \<open>The four patterns of the filter.\<close>

definition isNoise :: "string \<Rightarrow> bool" where
  "isNoise line =
     (searchFrom (prefix ''internal/process/'') line \<or>
      searchFrom (\<lambda>t. prefix ''node_modules/'' t
                       \<and> \<not> (prefix ''digdug'' (drop 13 t) \<or> prefix ''leadfoot'' (drop 13 t))) line \<or>
      searchFrom (prefix ''Module.runMain'') line \<or>
      searchFrom (prefix ''bootstrap_node.js'') line)"

text \<open>
  The local variables of \<^verbatim>\<open>normalizeStackTrace\<close>, each as a function of the arguments:
  \<open>rawLines\<close> is \<^verbatim>\<open>lines\<close> after line 150, \<open>firstLine\<close> the variable of that name,
  \<open>contentLines\<close> is \<^verbatim>\<open>lines\<close> after the loop, \<open>parsedLines\<close> is \<^verbatim>\<open>stackLines\<close>
  before the filter and \<open>stackLines\<close> after it.
\<close>

definition rawLines :: "string \<Rightarrow> string list" where
  "rawLines stk = splitLines (trimEnd stk)"

definition hasHeader :: "string \<Rightarrow> bool" where
  "hasHeader stk = isErrorHeader (lineAt0 (rawLines stk))"

definition firstLine :: "string \<Rightarrow> string" where
  "firstLine stk = (if hasHeader stk then lineAt0 (rawLines stk) @ [CHR 0x0A] else [])"

definition contentLines :: "string \<Rightarrow> string list" where
  "contentLines stk = stripBlank (if hasHeader stk then drop 1 (rawLines stk) else rawLines stk)"

definition parsedLines :: "string \<Rightarrow> (string \<Rightarrow> string) \<Rightarrow> string list" where
  "parsedLines stk getSrc =
     (if startsWithAt (lineAt0 (contentLines stk))
      then processChromeTrace (contentLines stk) getSrc
      else processSafariTrace (contentLines stk) getSrc)"

definition stackLines :: "string \<Rightarrow> bool \<Rightarrow> (string \<Rightarrow> string) \<Rightarrow> string list" where
  "stackLines stk filterStack getSrc =
     (if filterStack then filter (\<lambda>line. \<not> isNoise line) (parsedLines stk getSrc)
      else parsedLines stk getSrc)"

definition normalizeStackTrace :: "string \<Rightarrow> bool \<Rightarrow> (string \<Rightarrow> string) \<Rightarrow> string" where
  "normalizeStackTrace stk filterStack getSrc =
     CHR 0x0A # firstLine stk @ joinLines (stackLines stk filterStack getSrc)"

section \<open>The diff generator\<close>

text \<open>
  \<^verbatim>\<open>.replace(/^@@[^@]*@@$/gm, '[...]')\<close>. \<open>matchRange\<close> is the pattern tried at the
  start of a line; it returns what follows the match. The class \<^verbatim>\<open>[^@]\<close> accepts line
  terminators too, and it is followed by \<^verbatim>\<open>@\<close>, so it is the whole run up to the next
  \<^verbatim>\<open>@\<close>. With the flag \<^verbatim>\<open>m\<close> the \<^verbatim>\<open>$\<close> holds at the end of the text and
  before a line terminator. \<open>replaceRanges\<close> scans the text: its flag says whether the
  index is at the start of a line.
\<close>

definition matchRange :: "string \<Rightarrow> string option" where
  "matchRange s =
     (if prefix ''@@'' s
      then (let u = dropWhile (\<lambda>c. c \<noteq> CHR ''@'') (drop 2 s)
            in if prefix ''@@'' u \<and> (drop 2 u = [] \<or> isLineTerminator (hd (drop 2 u)))
               then Some (drop 2 u) else None)
      else None)"

function replaceRanges :: "bool \<Rightarrow> string \<Rightarrow> string" where
  "replaceRanges atLineStart [] = []"
| "replaceRanges atLineStart (c # cs) =
     (case (if atLineStart then matchRange (c # cs) else None) of
        Some r \<Rightarrow> ''[...]'' @ replaceRanges False r
      | None \<Rightarrow> c # replaceRanges (isLineTerminator c) cs)"
  by pat_completeness auto
termination
proof (relation "measure (\<lambda>(b, s). length s)")
  show "wf (measure (\<lambda>(b :: bool, s :: string). length s))" by simp
next
  fix atLineStart :: bool and c :: char and cs r :: string
  assume "(if atLineStart then matchRange (c # cs) else None) = Some r"
  then have m: "matchRange (c # cs) = Some r"
    by (simp split: if_splits)
  have "length (dropWhile (\<lambda>c. c \<noteq> CHR ''@'') (drop 2 (c # cs))) \<le> length (drop 2 (c # cs))"
    by (rule length_dropWhile_le)
  with m have "length r < length (c # cs)"
    by (auto simp: matchRange_def Let_def prefix_def split: if_splits)
  then show "((False, r), (atLineStart, c # cs)) \<in> measure (\<lambda>(b, s). length s)" by simp
next
  fix atLineStart :: bool and c :: char and cs :: string
  show "((isLineTerminator c, cs), (atLineStart, c # cs)) \<in> measure (\<lambda>(b, s). length s)" by simp
qed

text \<open>
  The callback of the second replacement: \<open>indicator\<close> and \<open>line\<close> are the two groups of
  \<^verbatim>\<open>/^([+-]?)(.*)$/\<close>.
\<close>

definition recodeLine :: "string \<Rightarrow> string" where
  "recodeLine l =
     (let indicator = (if prefix ''+'' l \<or> prefix ''-'' l then take 1 l else []);
          line = drop (length indicator) l
      in if line = ''[...]'' then line
         else (if indicator = ''+'' then ''E'' else if indicator = ''-'' then ''A'' else [])
              @ '' '' @ line)"

text \<open>
  \<^verbatim>\<open>.replace(/^([+-]?)(.*)$/gm, callback)\<close>. The pattern matches, at the start of each
  line, the whole line up to the next line terminator (an empty line included, also the one
  after a final terminator), and matches nowhere else.
\<close>

function replaceIndicators :: "string \<Rightarrow> string" where
  "replaceIndicators s =
     recodeLine (takeWhile (\<lambda>c. \<not> isLineTerminator c) s) @
     (case dropWhile (\<lambda>c. \<not> isLineTerminator c) s of
        [] \<Rightarrow> []
      | t # u \<Rightarrow> t # replaceIndicators u)"
  by pat_completeness auto
termination
proof (relation "measure length")
  show "wf (measure length)" by simp
next
  fix s :: string and t u
  assume "dropWhile (\<lambda>c. \<not> isLineTerminator c) s = t # u"
  then have "length (t # u) \<le> length s"
    by (metis length_dropWhile_le)
  then show "(u, s) \<in> measure length" by simp
qed

declare replaceIndicators.simps [simp del]

text \<open>
  \<open>patchBody\<close> is the text between the two replacements' input and the patch:
  \<^verbatim>\<open>.split('\n').slice(5, -1).join('\n')\<close>.
\<close>

definition patchBody :: "externals \<Rightarrow> jsval \<Rightarrow> jsval \<Rightarrow> string" where
  "patchBody ext act expd =
     joinLines (butlast (drop 5 (splitLines
       (createPatch ext [] (toJSON ext act @ [CHR 0x0A]) (toJSON ext expd @ [CHR 0x0A]) [] []))))"

definition createDiff :: "externals \<Rightarrow> jsval \<Rightarrow> jsval \<Rightarrow> string" where
  "createDiff ext act expd =
     (let diff = replaceRanges True (patchBody ext act expd)
      in if diff \<noteq> [] then replaceIndicators diff else diff)"

section \<open>The message composer\<close>

text \<open>
  The parts of \<^verbatim>\<open>format\<close> for an error object with a message or a stack:
  \<open>composedHeader\<close> is \<^verbatim>\<open>message\<close> as line 25 sets it, \<open>dedupedStack\<close> the stack after
  lines 31 to 36, \<open>normalizedStack\<close> the variable \<^verbatim>\<open>stack\<close> after line 39,
  \<open>diffSection\<close> what lines 43 to 48 append, and \<open>trailer\<close> what lines 50 to 67 append.
\<close>

definition composedHeader :: "internError \<Rightarrow> string" where
  "composedHeader e = strOr (name e) ''Error'' @ '': '' @ strOr (message e) ''Unknown error''"

definition dedupedStack :: "internError \<Rightarrow> string \<Rightarrow> string" where
  "dedupedStack e stk =
     (if prefix (composedHeader e) stk then drop (length (composedHeader e)) stk
      else if prefix (toStr (message e)) stk then drop (length (toStr (message e))) stk
      else stk)"

definition normalizedStack :: "formatter \<Rightarrow> internError \<Rightarrow> string option" where
  "normalizedStack this e =
     (case stack e of
        None \<Rightarrow> None
      | Some stk \<Rightarrow>
          if stk \<noteq> []
          then Some (normalizeStackTrace (dedupedStack e stk) (filterErrorStack this) (getSource this))
          else Some stk)"

definition diffSection :: "externals \<Rightarrow> internError \<Rightarrow> string" where
  "diffSection ext e =
     (if truthy (showDiff e) \<and> typeof (actual e) = ''object'' \<and> typeof (expected e) = ''object''
      then (let diff = createDiff ext (actual e) (expected e)
            in if diff \<noteq> [] then [CHR 0x0A, CHR 0x0A] @ diff @ [CHR 0x0A] else [])
      else [])"

definition hasNonSpace :: "string \<Rightarrow> bool" where
  "hasNonSpace s = list_ex (\<lambda>c. \<not> isSpace c) s"

definition trailer :: "formatter \<Rightarrow> internError \<Rightarrow> string" where
  "trailer this e =
     (case (case normalizedStack this e of
              None \<Rightarrow> None
            | Some stk \<Rightarrow> if stk \<noteq> [] \<and> hasNonSpace stk then Some stk else None) of
        Some stk \<Rightarrow> stk
      | None \<Rightarrow>
          if truthyStr (fileName e)
          then CHR 0x0A # ''  at '' @ the (fileName e) @
               (case lineNumber e of
                  None \<Rightarrow> []
                | Some ln \<Rightarrow>
                    '':'' @ ln @
                    (case columnNumber e of None \<Rightarrow> [] | Some cn \<Rightarrow> '':'' @ cn)) @
               CHR 0x0A # ''No stack''
          else CHR 0x0A # ''No stack or location'')"

text \<open>Lines 73 to 78: the indentation of every line.\<close>

definition indentLines :: "formatOptions option \<Rightarrow> string \<Rightarrow> string" where
  "indentLines options msg =
     (case (case options of None \<Rightarrow> None | Some opts \<Rightarrow> space opts) of
        None \<Rightarrow> msg
      | Some sp \<Rightarrow> joinLines (map (\<lambda>line. sp @ line) (splitLines msg)))"

definition format :: "externals \<Rightarrow> formatter \<Rightarrow> errorLike \<Rightarrow> formatOptions option \<Rightarrow> string" where
  "format ext this error options =
     indentLines options
       (case error of
          ErrString s \<Rightarrow> s
        | ErrObject e \<Rightarrow>
            if truthyStr (message e) \<or> truthyStr (stack e)
            then composedHeader e @ diffSection ext e @ trailer this e
            else asString e)"

section \<open>Notions of the specification\<close>

text \<open>
  Notions that the specification uses and the source does not, written after the
  specification's words, to be compared with the source: the header with the defaults
  substituted for a missing \<^verbatim>\<open>name\<close> or \<^verbatim>\<open>message\<close> only (the operator
  \<^verbatim>\<open>??\<close>), the primitive values of JavaScript, the number of occurrences of a text
  in a string, and the line of the diff that the specification gives for a line of the
  patch: the marker for a range line, and otherwise the line with its indicator recoded.
\<close>

definition nullishHeader :: "internError \<Rightarrow> string" where
  "nullishHeader e =
     (case name e of None \<Rightarrow> ''Error'' | Some n \<Rightarrow> n) @ '': '' @
     (case message e of None \<Rightarrow> ''Unknown error'' | Some m \<Rightarrow> m)"

fun isPrimitive :: "jsval \<Rightarrow> bool" where
  "isPrimitive JUndefined = True"
| "isPrimitive JNull = True"
| "isPrimitive (JBoolean b) = True"
| "isPrimitive (JNumber n) = True"
| "isPrimitive (JString s) = True"
| "isPrimitive (JObject ps) = False"
| "isPrimitive (JArray xs) = False"
| "isPrimitive (JFunction src) = False"

fun occurrences :: "string \<Rightarrow> string \<Rightarrow> nat" where
  "occurrences p [] = (if p = [] then 1 else 0)"
| "occurrences p (c # cs) = (if prefix p (c # cs) then 1 else 0) + occurrences p cs"

definition annotatedLine :: "string \<Rightarrow> string" where
  "annotatedLine l =
     (if matchRange l = Some [] \<or> l = ''[...]'' then ''[...]''
      else if prefix ''+'' l then ''E '' @ drop 1 l
      else if prefix ''-'' l then ''A '' @ drop 1 l
      else '' '' @ l)"

section \<open>Sample values\<close>

text \<open>
  An error object with the three properties given and the others missing, from which the
  examples below are built.
\<close>

definition errorWith :: "string option \<Rightarrow> string option \<Rightarrow> string option \<Rightarrow> internError" where
  "errorWith n m s =
     \<lparr>name = n, message = m, stack = s, showDiff = JUndefined, actual = JUndefined,
      expected = JUndefined, fileName = None, lineNumber = None, columnNumber = None,
      asString = ''[object Object]''\<rparr>"

text \<open>
  Two imports for the examples: a serializer for \<^verbatim>\<open>null\<close> and the empty object, and a
  patch function that returns, for two texts of one line each that differ, the patch that
  the package \<^verbatim>\<open>diff\<close> builds: four header lines, the range line, the old line with
  \<^verbatim>\<open>-\<close> and the new line with \<^verbatim>\<open>+\<close>.
\<close>

definition sampleExternals :: externals where
  "sampleExternals =
     \<lparr>toJSON = (\<lambda>v. if v = JNull then ''null'' else ''{}''),
      createPatch = (\<lambda>fileName oldStr newStr oldHeader newHeader.
        ''Index: '' @ fileName @ [CHR 0x0A] @
        ''==================================================================='' @ [CHR 0x0A] @
        ''--- '' @ fileName @ [CHR 0x09] @ oldHeader @ [CHR 0x0A] @
        ''+++ '' @ fileName @ [CHR 0x09] @ newHeader @ [CHR 0x0A] @
        ''@@ -1,1 +1,1 @@'' @ [CHR 0x0A] @
        ''-'' @ oldStr @ ''+'' @ newStr)\<rparr>"

text \<open>
  Imports whose patch has two hunks: the body that is left after the first five lines
  has a range line in it.
\<close>

definition twoHunkExternals :: externals where
  "twoHunkExternals =
     \<lparr>toJSON = (\<lambda>v. ''{}''),
      createPatch = (\<lambda>fileName oldStr newStr oldHeader newHeader.
        ''Index: '' @ [CHR 0x0A] @
        ''==================================================================='' @ [CHR 0x0A] @
        ''--- '' @ [CHR 0x09, CHR 0x0A] @
        ''+++ '' @ [CHR 0x09, CHR 0x0A] @
        ''@@ -1,3 +1,3 @@'' @ [CHR 0x0A] @
        '' {'' @ [CHR 0x0A] @
        ''-  a: 1,'' @ [CHR 0x0A] @
        ''+  a: 2,'' @ [CHR 0x0A] @
        ''   b: 0,'' @ [CHR 0x0A] @
        ''@@ -9,3 +9,3 @@'' @ [CHR 0x0A] @
        ''   y: 0,'' @ [CHR 0x0A] @
        ''-  z: 1'' @ [CHR 0x0A] @
        ''+  z: 2'' @ [CHR 0x0A] @
        '' }'' @ [CHR 0x0A])\<rparr>"

section \<open>The trace-line formatter\<close>

lemma find_SomeD: "find P xs = Some x \<Longrightarrow> x \<in> set xs \<and> P x"
  by (induction xs) (auto split: if_splits)

lemma matchChromeCall_func: "matchChromeCall l = Some (f, s) \<Longrightarrow> f \<noteq> []"
proof -
  assume a: "matchChromeCall l = Some (f, s)"
  define body where "body = drop 3 (dropWhile isSpace l)"
  from a obtain n where
    n: "find (\<lambda>n. list_all (\<lambda>c. \<not> isLineTerminator c) (take n body)
                  \<and> parenSource (drop n body) \<noteq> None) [1..<Suc (length body)] = Some n"
    and f: "f = take n body"
    by (auto simp: matchChromeCall_def Let_def body_def split: if_splits option.splits)
  from find_SomeD [OF n] have "1 \<le> n" "n \<le> length body" by auto
  with f show ?thesis by auto
qed

lemma matchSafariCall_func: "matchSafariCall l = Some (f, s) \<Longrightarrow> f \<noteq> []"
  by (auto simp: matchSafariCall_def Let_def split: if_splits)

text \<open>
  C8. A frame without \<^verbatim>\<open>func\<close> is rendered as two blanks, \<^verbatim>\<open>at\<close>, a blank and the
  resolved source between angle brackets; a frame with a function name as two blanks,
  \<^verbatim>\<open>at\<close>, a blank, the name, two blanks and the resolved source between angle brackets.
  The resolved source is \<open>g\<close> applied to the field \<^verbatim>\<open>source\<close>. The function name of a
  frame that one of the two parsers builds is never empty, so the second form is the one
  that every parsed frame with a name gets.
\<close>

theorem formatLine_frame:
  "formatLine \<lparr>func = None, source = s\<rparr> g = ''  at <'' @ g s @ ''>'' \<and>
   (f \<noteq> [] \<longrightarrow> formatLine \<lparr>func = Some f, source = s\<rparr> g = ''  at '' @ f @ ''  <'' @ g s @ ''>'') \<and>
   (matchChromeCall l = Some (f, s) \<longrightarrow>
      f \<noteq> [] \<and> chromeLine g l = ''  at '' @ f @ ''  <'' @ g s @ ''>'') \<and>
   (matchSafariCall l = Some (f, s) \<longrightarrow>
      f \<noteq> [] \<and> safariLine g l = ''  at '' @ f @ ''  <'' @ g s @ ''>'')"
proof -
  have 1: "formatLine \<lparr>func = None, source = s\<rparr> g = ''  at <'' @ g s @ ''>''"
    by (simp add: formatLine_def)
  have 2: "formatLine \<lparr>func = Some f, source = s\<rparr> g = ''  at '' @ f @ ''  <'' @ g s @ ''>''"
    if "f \<noteq> []" using that by (simp add: formatLine_def)
  have 3: "chromeLine g l = ''  at '' @ f @ ''  <'' @ g s @ ''>''"
    if "matchChromeCall l = Some (f, s)"
    using that 2 [OF matchChromeCall_func [OF that]] by (simp add: chromeLine_def)
  have 4: "safariLine g l = ''  at '' @ f @ ''  <'' @ g s @ ''>''"
    if "matchSafariCall l = Some (f, s)"
    using that 2 [OF matchSafariCall_func [OF that]] by (simp add: safariLine_def)
  from 1 2 3 4 matchChromeCall_func matchSafariCall_func show ?thesis by blast
qed

theorem formatLine_frame_witness:
  "formatLine \<lparr>func = None, source = ''a.js:1:1''\<rparr> (\<lambda>t. ''src/'' @ t) = ''  at <src/a.js:1:1>'' \<and>
   ''foo'' \<noteq> [] \<and>
   formatLine \<lparr>func = Some ''foo'', source = ''a.js:1:1''\<rparr> (\<lambda>t. ''src/'' @ t)
     = ''  at foo  <src/a.js:1:1>'' \<and>
   matchChromeCall ''    at foo (a.js:1:1)'' = Some (''foo'', ''a.js:1:1'') \<and>
   chromeLine (\<lambda>t. ''src/'' @ t) ''    at foo (a.js:1:1)'' = ''  at foo  <src/a.js:1:1>''"
proof -
  have m: "matchChromeCall ''    at foo (a.js:1:1)'' = Some (''foo'', ''a.js:1:1'')"
    by code_simp
  from m formatLine_frame [of "''a.js:1:1''" "\<lambda>t. ''src/'' @ t" "''foo''" "''    at foo (a.js:1:1)''"]
  show ?thesis by simp
qed


section \<open>The composed header\<close>

text \<open>
  C9, as the claim states it, fails: the defaults are not substituted exactly when the
  property is missing. An error made with no message has the empty string as its message
  and a stack, so it is a structured error; the claim's header is \<^verbatim>\<open>Error: \<close> with
  nothing after it, and \<^verbatim>\<open>format\<close> writes \<^verbatim>\<open>Error: Unknown error\<close>.
\<close>

theorem header_defaults_counterexample:
  "truthyStr (stack (errorWith (Some ''Error'') (Some []) (Some ''Error\<newline>    at f (a.js:1:1)''))) \<and>
   message (errorWith (Some ''Error'') (Some []) (Some ''Error\<newline>    at f (a.js:1:1)'')) = Some [] \<and>
   composedHeader (errorWith (Some ''Error'') (Some []) (Some ''Error\<newline>    at f (a.js:1:1)''))
     = ''Error: Unknown error'' \<and>
   nullishHeader (errorWith (Some ''Error'') (Some []) (Some ''Error\<newline>    at f (a.js:1:1)''))
     = ''Error: '' \<and>
   format sampleExternals (Formatter None)
     (ErrObject (errorWith (Some ''Error'') (Some []) (Some ''Error\<newline>    at f (a.js:1:1)''))) None
     = ''Error: Unknown error\<newline>Error\<newline>    at f (a.js:1:1)''"
  by code_simp

text \<open>
  C9, amended. For every error object with a message or a stack, the composed header is the
  name, a colon, a blank and the message, where \<^verbatim>\<open>Error\<close> stands for a name that is
  missing or empty and \<^verbatim>\<open>Unknown error\<close> for a message that is missing or empty
  (the operator is \<^verbatim>\<open>||\<close>); the message that \<^verbatim>\<open>format\<close> returns starts with it.
\<close>

theorem composedHeader_defaults:
  "truthyStr (message e) \<or> truthyStr (stack e) \<Longrightarrow>
   composedHeader e =
     (case name e of None \<Rightarrow> ''Error'' | Some n \<Rightarrow> if n = [] then ''Error'' else n) @ '': '' @
     (case message e of None \<Rightarrow> ''Unknown error'' | Some m \<Rightarrow> if m = [] then ''Unknown error'' else m) \<and>
   format ext this (ErrObject e) None = composedHeader e @ diffSection ext e @ trailer this e"
  by (simp add: composedHeader_def strOr_def format_def indentLines_def split: option.splits)

theorem composedHeader_defaults_witness:
  "truthyStr (message (errorWith None (Some ''boom'') None)) \<and>
   composedHeader (errorWith None (Some ''boom'') None) = ''Error: boom'' \<and>
   composedHeader (errorWith (Some ''TypeError'') None (Some ''x'')) = ''TypeError: Unknown error'' \<and>
   format sampleExternals (Formatter None) (ErrObject (errorWith None (Some ''boom'') None)) None
     = ''Error: boom\<newline>No stack or location''"
proof -
  have h: "truthyStr (message (errorWith None (Some ''boom'') None))
           \<or> truthyStr (stack (errorWith None (Some ''boom'') None))"
    by (simp add: errorWith_def)
  have d: "diffSection sampleExternals (errorWith None (Some ''boom'') None) = []"
    by (simp add: diffSection_def errorWith_def)
  have t: "trailer (Formatter None) (errorWith None (Some ''boom'') None) = ''\<newline>No stack or location''"
    by (simp add: trailer_def normalizedStack_def errorWith_def)
  have c: "composedHeader (errorWith (Some ''TypeError'') None (Some ''x'')) = ''TypeError: Unknown error''"
    by (simp add: composedHeader_def strOr_def errorWith_def)
  from composedHeader_defaults [OF h, of sampleExternals "Formatter None"] d t c
  show ?thesis by (simp add: errorWith_def)
qed

section \<open>The stack normalizer: dialects\<close>

lemma chromeLine_passthrough:
  "matchChromeCall l = None \<Longrightarrow> matchChromeAt l = None \<Longrightarrow> chromeLine g l = l"
  by (simp add: chromeLine_def)

lemma safariLine_passthrough:
  "matchSafariCall l = None \<Longrightarrow> matchSafariUrl l = None \<Longrightarrow> safariLine g l = l"
  by (simp add: safariLine_def)

lemma normalizeStackTrace_unfiltered:
  "normalizeStackTrace stk False g = CHR 0x0A # firstLine stk @ joinLines (parsedLines stk g)"
  by (simp add: normalizeStackTrace_def stackLines_def)

lemma normalizeStackTrace_filtered:
  "normalizeStackTrace stk True g =
     CHR 0x0A # firstLine stk @ joinLines (filter (\<lambda>x. \<not> isNoise x) (parsedLines stk g))"
  by (simp add: normalizeStackTrace_def stackLines_def)

text \<open>
  C7. If the first content line (the first line after the header line and the leading blank
  lines are removed) starts with optional white space and \<^verbatim>\<open>at\<close> and a blank, every
  content line goes through the bracket-call parser, whatever the at-sign patterns would
  make of it; otherwise every content line goes through the at-sign parser. In each parser
  a line that matches neither of its two patterns is returned as it is. The normalized
  stack, without the filter, is these lines joined.
\<close>

theorem dialect_selection:
  "(startsWithAt (lineAt0 (contentLines stk)) \<longrightarrow>
      parsedLines stk g = map (chromeLine g) (contentLines stk)) \<and>
   (\<not> startsWithAt (lineAt0 (contentLines stk)) \<longrightarrow>
      parsedLines stk g = map (safariLine g) (contentLines stk)) \<and>
   (matchChromeCall l = None \<and> matchChromeAt l = None \<longrightarrow> chromeLine g l = l) \<and>
   (matchSafariCall l = None \<and> matchSafariUrl l = None \<longrightarrow> safariLine g l = l) \<and>
   normalizeStackTrace stk False g = CHR 0x0A # firstLine stk @ joinLines (parsedLines stk g)"
  by (simp add: parsedLines_def processChromeTrace_def processSafariTrace_def
        chromeLine_passthrough safariLine_passthrough normalizeStackTrace_unfiltered)

theorem dialect_selection_witness:
  "startsWithAt (lineAt0 (contentLines ''Error: x\<newline>\<newline>    at a (b.js:1:1)\<newline>foo@c.js:2'')) \<and>
   matchSafariCall ''foo@c.js:2'' = Some (''foo'', ''c.js:2'') \<and>
   matchChromeCall ''foo@c.js:2'' = None \<and> matchChromeAt ''foo@c.js:2'' = None \<and>
   normalizeStackTrace ''Error: x\<newline>\<newline>    at a (b.js:1:1)\<newline>foo@c.js:2'' False (\<lambda>t. t)
     = ''\<newline>Error: x\<newline>  at a  <b.js:1:1>\<newline>foo@c.js:2'' \<and>
   \<not> startsWithAt (lineAt0 (contentLines ''foo@c.js:2\<newline>    at a (b.js:1:1)'')) \<and>
   matchSafariCall ''    at a (b.js:1:1)'' = None \<and> matchSafariUrl ''    at a (b.js:1:1)'' = None \<and>
   normalizeStackTrace ''foo@c.js:2\<newline>    at a (b.js:1:1)'' False (\<lambda>t. t)
     = ''\<newline>  at foo  <c.js:2>\<newline>    at a (b.js:1:1)''"
proof -
  have c: "contentLines ''Error: x\<newline>\<newline>    at a (b.js:1:1)\<newline>foo@c.js:2''
             = [''    at a (b.js:1:1)'', ''foo@c.js:2'']"
    by code_simp
  have f: "firstLine ''Error: x\<newline>\<newline>    at a (b.js:1:1)\<newline>foo@c.js:2'' = ''Error: x\<newline>''"
    by code_simp
  have s: "startsWithAt (lineAt0 [''    at a (b.js:1:1)'', ''foo@c.js:2''])"
    by code_simp
  have p: "matchChromeCall ''foo@c.js:2'' = None \<and> matchChromeAt ''foo@c.js:2'' = None"
    by code_simp
  have m: "matchSafariCall ''foo@c.js:2'' = Some (''foo'', ''c.js:2'')"
    by code_simp
  have a: "chromeLine (\<lambda>t. t) ''    at a (b.js:1:1)'' = ''  at a  <b.js:1:1>''"
    by code_simp
  have c': "contentLines ''foo@c.js:2\<newline>    at a (b.js:1:1)''
             = [''foo@c.js:2'', ''    at a (b.js:1:1)'']"
    by code_simp
  have f': "firstLine ''foo@c.js:2\<newline>    at a (b.js:1:1)'' = []"
    by code_simp
  have s': "\<not> startsWithAt (lineAt0 [''foo@c.js:2'', ''    at a (b.js:1:1)''])"
    by code_simp
  have p': "matchSafariCall ''    at a (b.js:1:1)'' = None \<and> matchSafariUrl ''    at a (b.js:1:1)'' = None"
    by code_simp
  have a': "safariLine (\<lambda>t. t) ''foo@c.js:2'' = ''  at foo  <c.js:2>''"
    by code_simp
  from dialect_selection [of "''Error: x\<newline>\<newline>    at a (b.js:1:1)\<newline>foo@c.js:2''" "\<lambda>t. t" "''foo@c.js:2''"]
       c f s p a
  have 1: "normalizeStackTrace ''Error: x\<newline>\<newline>    at a (b.js:1:1)\<newline>foo@c.js:2'' False (\<lambda>t. t)
     = ''\<newline>Error: x\<newline>  at a  <b.js:1:1>\<newline>foo@c.js:2''"
    by simp
  from dialect_selection [of "''foo@c.js:2\<newline>    at a (b.js:1:1)''" "\<lambda>t. t" "''    at a (b.js:1:1)''"]
       c' f' s' p' a'
  have 2: "normalizeStackTrace ''foo@c.js:2\<newline>    at a (b.js:1:1)'' False (\<lambda>t. t)
     = ''\<newline>  at foo  <c.js:2>\<newline>    at a (b.js:1:1)''"
    by simp
  from 1 2 c s p m c' s' p' show ?thesis by simp
qed

section \<open>The default formatter\<close>

text \<open>
  C10. A formatter made with no options, or with options that have no
  \<^verbatim>\<open>filterErrorStack\<close>, has the flag false. So the stack lines that \<^verbatim>\<open>format\<close>
  gets from the normalizer are all the lines that the dialect parser returns, the ones that
  match a noise pattern too: the normalized stack is the new line, the header line if there
  is one, and all the parsed lines joined.
\<close>

theorem default_formatter_no_filter:
  "options = None \<or> options = Some \<lparr>optFilterErrorStack = None\<rparr> \<Longrightarrow>
     filterErrorStack (Formatter options) = False \<and>
     stackLines stk (filterErrorStack (Formatter options)) g = parsedLines stk g \<and>
     normalizedStack (Formatter options) e =
       (case stack e of
          None \<Rightarrow> None
        | Some s \<Rightarrow>
            if s = [] then Some s
            else Some (CHR 0x0A # firstLine (dedupedStack e s)
                       @ joinLines (parsedLines (dedupedStack e s) (\<lambda>t. t))))"
  by (auto simp: Formatter_def stackLines_def normalizedStack_def normalizeStackTrace_def
        split: option.splits)

theorem default_formatter_no_filter_witness:
  "isNoise ''  at g  <internal/process/next_tick.js:2:2>'' \<and>
   filterErrorStack (Formatter None) = False \<and>
   normalizedStack (Formatter None)
     (errorWith None (Some ''boom'')
        (Some ''Error: boom\<newline>    at g (internal/process/next_tick.js:2:2)''))
     = Some ''\<newline>  at g  <internal/process/next_tick.js:2:2>'' \<and>
   format sampleExternals (Formatter None)
     (ErrObject (errorWith None (Some ''boom'')
        (Some ''Error: boom\<newline>    at g (internal/process/next_tick.js:2:2)''))) None
     = ''Error: boom\<newline>  at g  <internal/process/next_tick.js:2:2>''"
proof -
  define e where "e = errorWith None (Some ''boom'')
        (Some ''Error: boom\<newline>    at g (internal/process/next_tick.js:2:2)'')"
  have h: "(None :: formatterOptions option) = None \<or> None = Some \<lparr>optFilterErrorStack = None\<rparr>"
    by simp
  have s: "stack e = Some ''Error: boom\<newline>    at g (internal/process/next_tick.js:2:2)''"
    by (simp add: e_def errorWith_def)
  have d: "dedupedStack e ''Error: boom\<newline>    at g (internal/process/next_tick.js:2:2)''
             = ''\<newline>    at g (internal/process/next_tick.js:2:2)''"
    unfolding e_def by code_simp
  have p: "parsedLines ''\<newline>    at g (internal/process/next_tick.js:2:2)'' (\<lambda>t. t)
             = [''  at g  <internal/process/next_tick.js:2:2>'']"
    by code_simp
  have f: "firstLine ''\<newline>    at g (internal/process/next_tick.js:2:2)'' = []"
    by code_simp
  have n: "isNoise ''  at g  <internal/process/next_tick.js:2:2>''"
    by code_simp
  from default_formatter_no_filter [OF h, of _ _ e] have
    a: "filterErrorStack (Formatter None) = False" and
    b: "normalizedStack (Formatter None) e =
       (case stack e of
          None \<Rightarrow> None
        | Some s \<Rightarrow>
            if s = [] then Some s
            else Some (CHR 0x0A # firstLine (dedupedStack e s)
                       @ joinLines (parsedLines (dedupedStack e s) (\<lambda>t. t))))"
    by blast+
  have b': "normalizedStack (Formatter None) e = Some ''\<newline>  at g  <internal/process/next_tick.js:2:2>''"
    unfolding b s by (simp add: d p f)
  have c: "format sampleExternals (Formatter None) (ErrObject e) None
             = ''Error: boom\<newline>  at g  <internal/process/next_tick.js:2:2>''"
    unfolding e_def by code_simp
  from n a b' c show ?thesis unfolding e_def by blast
qed

section \<open>The message composer\<close>

lemma splitLines_not_Nil: "splitLines s \<noteq> []"
  by (induction s) (auto split: list.splits)

lemma splitLines_append_nl: "splitLines (a @ CHR 0x0A # b) = splitLines a @ splitLines b"
  by (induction a) (auto split: list.splits simp: splitLines_not_Nil)

lemma splitLines_no_nl: "CHR 0x0A \<notin> set s \<Longrightarrow> splitLines s = [s]"
  by (induction s) auto

lemma joinLines_snoc: "xs \<noteq> [] \<Longrightarrow> joinLines (xs @ [y]) = joinLines xs @ CHR 0x0A # y"
  by (induction xs rule: joinLines.induct) auto

lemma indentLines_last_line:
  assumes "CHR 0x0A \<notin> set t"
  shows "suffix t (indentLines options (m @ CHR 0x0A # t))"
proof (cases "case options of None \<Rightarrow> None | Some opts \<Rightarrow> space opts")
  case None
  then show ?thesis
    by (simp add: indentLines_def suffix_def)
next
  case (Some sp)
  have "joinLines (map (\<lambda>line. sp @ line) (splitLines (m @ CHR 0x0A # t)))
          = joinLines (map (\<lambda>line. sp @ line) (splitLines m)) @ CHR 0x0A # sp @ t"
    using assms
    by (simp add: splitLines_append_nl splitLines_no_nl joinLines_snoc splitLines_not_Nil)
  with Some show ?thesis
    by (simp add: indentLines_def suffix_def)
qed

lemma format_structured:
  "truthyStr (message e) \<or> truthyStr (stack e) \<Longrightarrow>
   format ext this (ErrObject e) options
     = indentLines options (composedHeader e @ diffSection ext e @ trailer this e)"
  by (simp add: format_def)

section \<open>The trailer without a stack\<close>

text \<open>
  C3, as the claim states it, fails when the option \<^verbatim>\<open>space\<close> is set: the location line
  is indented like every other line, so the output does not contain a line feed that is
  followed at once by two blanks, \<^verbatim>\<open>at\<close>, a blank and the file name. The error below
  has a message, no stack and a file name.
\<close>

theorem trailer_contains_counterexample:
  "truthyStr (message (errorWith None (Some ''boom'') None \<lparr>fileName := Some ''test.js''\<rparr>)) \<and>
   normalizedStack (Formatter None) (errorWith None (Some ''boom'') None \<lparr>fileName := Some ''test.js''\<rparr>)
     = None \<and>
   format sampleExternals (Formatter None)
     (ErrObject (errorWith None (Some ''boom'') None \<lparr>fileName := Some ''test.js''\<rparr>))
     (Some \<lparr>space = Some ''  ''\<rparr>)
     = ''  Error: boom\<newline>    at test.js\<newline>  No stack'' \<and>
   occurrences ''\<newline>  at test.js'' ''  Error: boom\<newline>    at test.js\<newline>  No stack'' = 0"
  by code_simp

text \<open>
  C3, amended. For every error object with a non-empty message or a non-empty stack whose
  normalized stack is missing, empty or all white space, the trailer is one of two. If
  \<^verbatim>\<open>fileName\<close> is a non-empty string, the message before indentation is the header, the
  diff section if any, then a line feed, two blanks, \<^verbatim>\<open>at\<close>, a blank and the file name,
  then a colon and the line number if the line number is set, then a colon and the column
  number if both are set, then a line feed and \<^verbatim>\<open>No stack\<close>. If \<^verbatim>\<open>fileName\<close> is
  missing or empty, the message before indentation is the header, the diff section if any, a
  line feed and \<^verbatim>\<open>No stack or location\<close>. The output is this message when the option
  \<^verbatim>\<open>space\<close> is not set, and this message with the indentation applied to each of its
  lines when it is set; in both cases the output ends with the marker.
\<close>

theorem trailer_without_stack:
  assumes "truthyStr (message e) \<or> truthyStr (stack e)"
    and "case normalizedStack this e of None \<Rightarrow> True | Some s \<Rightarrow> \<not> hasNonSpace s"
  shows "(fileName e = Some f \<and> f \<noteq> [] \<longrightarrow>
            format ext this (ErrObject e) options
              = indentLines options
                  (composedHeader e @ diffSection ext e @ CHR 0x0A # ''  at '' @ f @
                   (case lineNumber e of
                      None \<Rightarrow> []
                    | Some ln \<Rightarrow>
                        '':'' @ ln @ (case columnNumber e of None \<Rightarrow> [] | Some cn \<Rightarrow> '':'' @ cn)) @
                   CHR 0x0A # ''No stack'') \<and>
            suffix ''No stack'' (format ext this (ErrObject e) options)) \<and>
         (\<not> truthyStr (fileName e) \<longrightarrow>
            format ext this (ErrObject e) options
              = indentLines options
                  (composedHeader e @ diffSection ext e @ CHR 0x0A # ''No stack or location'') \<and>
            suffix ''No stack or location'' (format ext this (ErrObject e) options)) \<and>
         ((case options of None \<Rightarrow> None | Some opts \<Rightarrow> space opts) = None \<longrightarrow>
            indentLines options msg = msg) \<and>
         ((case options of None \<Rightarrow> None | Some opts \<Rightarrow> space opts) = Some sp \<longrightarrow>
            indentLines options msg = joinLines (map (\<lambda>line. sp @ line) (splitLines msg)))"
proof -
  have ns: "(case (case normalizedStack this e of
              None \<Rightarrow> None
            | Some stk \<Rightarrow> if stk \<noteq> [] \<and> hasNonSpace stk then Some stk else None) of
              Some stk \<Rightarrow> a stk | None \<Rightarrow> b) = b" for a :: "string \<Rightarrow> string" and b
    using assms(2) by (simp split: option.splits)
  have 1: "format ext this (ErrObject e) options
              = indentLines options
                  (composedHeader e @ diffSection ext e @ CHR 0x0A # ''  at '' @ f @
                   (case lineNumber e of
                      None \<Rightarrow> []
                    | Some ln \<Rightarrow>
                        '':'' @ ln @ (case columnNumber e of None \<Rightarrow> [] | Some cn \<Rightarrow> '':'' @ cn)) @
                   CHR 0x0A # ''No stack'')"
    if "fileName e = Some f" "f \<noteq> []"
    using that by (simp add: format_structured [OF assms(1)] trailer_def ns)
  have 2: "format ext this (ErrObject e) options
              = indentLines options
                  (composedHeader e @ diffSection ext e @ CHR 0x0A # ''No stack or location'')"
    if "\<not> truthyStr (fileName e)"
    using that by (simp add: format_structured [OF assms(1)] trailer_def ns)
  have 3: "suffix ''No stack'' (indentLines options (m @ CHR 0x0A # ''No stack''))" for m
    by (rule indentLines_last_line) simp
  have 4: "suffix ''No stack or location''
             (indentLines options (m @ CHR 0x0A # ''No stack or location''))" for m
    by (rule indentLines_last_line) simp
  have 5: "suffix ''No stack'' (format ext this (ErrObject e) options)"
    if "fileName e = Some f" "f \<noteq> []"
    using 3 [of "composedHeader e @ diffSection ext e @ CHR 0x0A # ''  at '' @ f @
                   (case lineNumber e of
                      None \<Rightarrow> []
                    | Some ln \<Rightarrow>
                        '':'' @ ln @ (case columnNumber e of None \<Rightarrow> [] | Some cn \<Rightarrow> '':'' @ cn))"]
    by (simp add: 1 [OF that])
  have 6: "suffix ''No stack or location'' (format ext this (ErrObject e) options)"
    if "\<not> truthyStr (fileName e)"
    using 4 [of "composedHeader e @ diffSection ext e"] by (simp add: 2 [OF that])
  have 7: "indentLines options msg = msg"
    if "(case options of None \<Rightarrow> None | Some opts \<Rightarrow> space opts) = None"
    using that by (simp add: indentLines_def)
  have 8: "indentLines options msg = joinLines (map (\<lambda>line. sp @ line) (splitLines msg))"
    if "(case options of None \<Rightarrow> None | Some opts \<Rightarrow> space opts) = Some sp"
    using that by (simp add: indentLines_def)
  from 1 2 5 6 7 8 show ?thesis by blast
qed

theorem trailer_without_stack_witness:
  "format sampleExternals (Formatter None)
     (ErrObject (errorWith None (Some ''boom'') None
        \<lparr>fileName := Some ''test.js'', lineNumber := Some ''12'', columnNumber := Some ''3''\<rparr>))
     None
     = ''Error: boom\<newline>  at test.js:12:3\<newline>No stack'' \<and>
   format sampleExternals (Formatter None)
     (ErrObject (errorWith None (Some ''boom'') None
        \<lparr>fileName := Some ''test.js'', lineNumber := Some ''12'', columnNumber := Some ''3''\<rparr>))
     (Some \<lparr>space = Some ''  ''\<rparr>)
     = ''  Error: boom\<newline>    at test.js:12:3\<newline>  No stack'' \<and>
   format sampleExternals (Formatter None)
     (ErrObject (errorWith None (Some ''boom'') (Some '' \<newline> ''))) None
     = ''Error: boom\<newline>No stack or location'' \<and>
   suffix ''No stack or location''
     (format sampleExternals (Formatter None)
        (ErrObject (errorWith None (Some ''boom'') (Some '' \<newline> ''))) None)"
proof -
  define e1 where "e1 = errorWith None (Some ''boom'') None
        \<lparr>fileName := Some ''test.js'', lineNumber := Some ''12'', columnNumber := Some ''3''\<rparr>"
  define e2 where "e2 = errorWith None (Some ''boom'') (Some '' \<newline> '')"
  define m1 where "m1 = composedHeader e1 @ diffSection sampleExternals e1 @ CHR 0x0A # ''  at '' @ ''test.js'' @
                 (case lineNumber e1 of
                    None \<Rightarrow> []
                  | Some ln \<Rightarrow>
                      '':'' @ ln @ (case columnNumber e1 of None \<Rightarrow> [] | Some cn \<Rightarrow> '':'' @ cn)) @
                 CHR 0x0A # ''No stack''"
  have s1: "truthyStr (message e1) \<or> truthyStr (stack e1)"
    by (simp add: e1_def errorWith_def)
  have n1: "case normalizedStack (Formatter None) e1 of None \<Rightarrow> True | Some s \<Rightarrow> \<not> hasNonSpace s"
    by (simp add: e1_def errorWith_def normalizedStack_def)
  have f1: "fileName e1 = Some ''test.js'' \<and> ''test.js'' \<noteq> []"
    by (simp add: e1_def errorWith_def)
  have v0: "m1 = ''Error: boom\<newline>  at test.js:12:3\<newline>No stack''"
    unfolding m1_def e1_def by code_simp
  have v1: "joinLines (map (\<lambda>line. ''  '' @ line)
              (splitLines ''Error: boom\<newline>  at test.js:12:3\<newline>No stack''))
            = ''  Error: boom\<newline>    at test.js:12:3\<newline>  No stack''"
    by code_simp
  have s2: "truthyStr (message e2) \<or> truthyStr (stack e2)"
    by (simp add: e2_def errorWith_def)
  have n2': "normalizedStack (Formatter None) e2 = Some ''\<newline>''"
    unfolding e2_def by code_simp
  have n2: "case normalizedStack (Formatter None) e2 of None \<Rightarrow> True | Some s \<Rightarrow> \<not> hasNonSpace s"
    unfolding n2' by code_simp
  have f2: "\<not> truthyStr (fileName e2)"
    by (simp add: e2_def errorWith_def)
  have v2: "composedHeader e2 @ diffSection sampleExternals e2 @ CHR 0x0A # ''No stack or location''
            = ''Error: boom\<newline>No stack or location''"
    unfolding e2_def by code_simp
  have o1: "(case (None :: formatOptions option) of None \<Rightarrow> None | Some opts \<Rightarrow> space opts) = None"
    by simp
  have o2: "(case Some \<lparr>space = Some ''  ''\<rparr> of None \<Rightarrow> None | Some opts \<Rightarrow> space opts) = Some ''  ''"
    by simp
  note A = trailer_without_stack [OF s1 n1, of "''test.js''" sampleExternals None m1]
  have a0: "format sampleExternals (Formatter None) (ErrObject e1) None = indentLines None m1"
    unfolding m1_def by (rule A [THEN conjunct1, THEN mp, OF f1, THEN conjunct1])
  have a1: "indentLines None m1 = m1"
    by (rule A [THEN conjunct2, THEN conjunct2, THEN conjunct1, THEN mp, OF o1])
  have a: "format sampleExternals (Formatter None) (ErrObject e1) None
             = ''Error: boom\<newline>  at test.js:12:3\<newline>No stack''"
  proof -
    from a0 a1 have "format sampleExternals (Formatter None) (ErrObject e1) None = m1"
      by (rule trans)
    then show ?thesis unfolding v0 .
  qed
  note B = trailer_without_stack [OF s1 n1, of "''test.js''" sampleExternals
         "Some \<lparr>space = Some ''  ''\<rparr>" m1 "''  ''"]
  have b0: "format sampleExternals (Formatter None) (ErrObject e1) (Some \<lparr>space = Some ''  ''\<rparr>)
              = indentLines (Some \<lparr>space = Some ''  ''\<rparr>) m1"
    unfolding m1_def by (rule B [THEN conjunct1, THEN mp, OF f1, THEN conjunct1])
  have b1: "indentLines (Some \<lparr>space = Some ''  ''\<rparr>) m1
              = joinLines (map (\<lambda>line. ''  '' @ line) (splitLines m1))"
    by (rule B [THEN conjunct2, THEN conjunct2, THEN conjunct2, THEN mp, OF o2])
  have b: "format sampleExternals (Formatter None) (ErrObject e1) (Some \<lparr>space = Some ''  ''\<rparr>)
             = ''  Error: boom\<newline>    at test.js:12:3\<newline>  No stack''"
  proof -
    from b0 b1 have "format sampleExternals (Formatter None) (ErrObject e1) (Some \<lparr>space = Some ''  ''\<rparr>)
              = joinLines (map (\<lambda>line. ''  '' @ line) (splitLines m1))"
      by (rule trans)
    then show ?thesis unfolding v0 v1 .
  qed
  define m2 where "m2 = composedHeader e2 @ diffSection sampleExternals e2 @ CHR 0x0A # ''No stack or location''"
  note C = trailer_without_stack [OF s2 n2, of "[]" sampleExternals None m2]
  have c0: "format sampleExternals (Formatter None) (ErrObject e2) None = indentLines None m2"
    unfolding m2_def by (rule C [THEN conjunct2, THEN conjunct1, THEN mp, OF f2, THEN conjunct1])
  have d: "suffix ''No stack or location'' (format sampleExternals (Formatter None) (ErrObject e2) None)"
    by (rule C [THEN conjunct2, THEN conjunct1, THEN mp, OF f2, THEN conjunct2])
  have c1: "indentLines None m2 = m2"
    by (rule C [THEN conjunct2, THEN conjunct2, THEN conjunct1, THEN mp, OF o1])
  have c: "format sampleExternals (Formatter None) (ErrObject e2) None
             = ''Error: boom\<newline>No stack or location''"
  proof -
    from c0 c1 have "format sampleExternals (Formatter None) (ErrObject e2) None = m2"
      by (rule trans)
    then show ?thesis unfolding m2_def v2 .
  qed
  show ?thesis
    unfolding e1_def [symmetric] e2_def [symmetric]
    by (intro conjI a b c d)
qed

section \<open>The diff section\<close>

text \<open>
  C2, as the claim states it, fails: \<^verbatim>\<open>null\<close> is a primitive value and its
  \<^verbatim>\<open>typeof\<close> is \<^verbatim>\<open>object\<close>. With \<^verbatim>\<open>showDiff\<close> true, the actual value
  \<^verbatim>\<open>null\<close> and the expected value an empty object, the diff is generated and its section
  is part of the message.
\<close>

theorem diff_guard_counterexample:
  "isPrimitive (actual (errorWith None (Some ''boom'') None
      \<lparr>showDiff := JBoolean True, actual := JNull, expected := JObject []\<rparr>)) \<and>
   format sampleExternals (Formatter None)
     (ErrObject (errorWith None (Some ''boom'') None
        \<lparr>showDiff := JBoolean True, actual := JNull, expected := JObject []\<rparr>)) None
     = ''Error: boom\<newline>\<newline>A null\<newline>E {}\<newline>\<newline>No stack or location''"
  by code_simp

text \<open>
  C2, amended. For every error object with a message or a stack, the diff is generated if
  and only if \<^verbatim>\<open>showDiff\<close> is truthy and the \<^verbatim>\<open>typeof\<close> of both the actual and
  the expected value is \<^verbatim>\<open>object\<close>, which holds of objects, of arrays and of
  \<^verbatim>\<open>null\<close>, and of nothing else. When it is generated and not empty, two new lines, the
  diff and a new line follow the header; otherwise the header is followed by the trailer at
  once, whatever the serializer and the patch function are.
\<close>

theorem diff_guard:
  "truthyStr (message e) \<or> truthyStr (stack e) \<Longrightarrow>
   ((typeof v = ''object'') = (v = JNull \<or> (\<exists>ps. v = JObject ps) \<or> (\<exists>xs. v = JArray xs))) \<and>
   (truthy (showDiff e) \<and> typeof (actual e) = ''object'' \<and> typeof (expected e) = ''object'' \<longrightarrow>
      format ext this (ErrObject e) options
        = indentLines options
            (composedHeader e @
             (if createDiff ext (actual e) (expected e) = [] then []
              else [CHR 0x0A, CHR 0x0A] @ createDiff ext (actual e) (expected e) @ [CHR 0x0A]) @
             trailer this e)) \<and>
   (\<not> (truthy (showDiff e) \<and> typeof (actual e) = ''object'' \<and> typeof (expected e) = ''object'') \<longrightarrow>
      format ext this (ErrObject e) options
        = indentLines options (composedHeader e @ trailer this e))"
proof -
  assume s: "truthyStr (message e) \<or> truthyStr (stack e)"
  have t: "(typeof v = ''object'') = (v = JNull \<or> (\<exists>ps. v = JObject ps) \<or> (\<exists>xs. v = JArray xs))"
    by (cases v) simp_all
  show ?thesis
    unfolding format_structured [OF s] using t by (simp add: diffSection_def Let_def)
qed

theorem diff_guard_witness:
  "typeof (JArray []) = ''object'' \<and>
   format sampleExternals (Formatter None)
     (ErrObject (errorWith None (Some ''boom'') None
        \<lparr>showDiff := JBoolean True, actual := JObject [], expected := JNull\<rparr>)) None
     = ''Error: boom\<newline>\<newline>A {}\<newline>E null\<newline>\<newline>No stack or location'' \<and>
   format sampleExternals (Formatter None)
     (ErrObject (errorWith None (Some ''boom'') None
        \<lparr>showDiff := JBoolean True, actual := JObject [], expected := JNumber 1\<rparr>)) None
     = ''Error: boom\<newline>No stack or location''"
proof -
  define e1 where "e1 = errorWith None (Some ''boom'') None
        \<lparr>showDiff := JBoolean True, actual := JObject [], expected := JNull\<rparr>"
  define e2 where "e2 = errorWith None (Some ''boom'') None
        \<lparr>showDiff := JBoolean True, actual := JObject [], expected := JNumber 1\<rparr>"
  have s1: "truthyStr (message e1) \<or> truthyStr (stack e1)"
    by (simp add: e1_def errorWith_def)
  have s2: "truthyStr (message e2) \<or> truthyStr (stack e2)"
    by (simp add: e2_def errorWith_def)
  have g1: "truthy (showDiff e1) \<and> typeof (actual e1) = ''object'' \<and> typeof (expected e1) = ''object''"
    by (simp add: e1_def errorWith_def)
  have g2: "\<not> (truthy (showDiff e2) \<and> typeof (actual e2) = ''object'' \<and> typeof (expected e2) = ''object'')"
    by (simp add: e2_def errorWith_def)
  have d1: "createDiff sampleExternals (actual e1) (expected e1) = ''A {}\<newline>E null''"
    unfolding e1_def by code_simp
  have h1: "composedHeader e1 = ''Error: boom''"
    unfolding e1_def by code_simp
  have h2: "composedHeader e2 = ''Error: boom''"
    unfolding e2_def by code_simp
  have t1: "trailer (Formatter None) e1 = ''\<newline>No stack or location''"
    unfolding e1_def by code_simp
  have t2: "trailer (Formatter None) e2 = ''\<newline>No stack or location''"
    unfolding e2_def by code_simp
  from diff_guard [OF s1, of "JArray []" sampleExternals "Formatter None" None] g1
  have a: "typeof (JArray []) = ''object''"
    and b: "format sampleExternals (Formatter None) (ErrObject e1) None
              = ''Error: boom\<newline>\<newline>A {}\<newline>E null\<newline>\<newline>No stack or location''"
    by (simp_all add: d1 h1 t1 indentLines_def)
  from diff_guard [OF s2, of _ sampleExternals "Formatter None" None] g2
  have c: "format sampleExternals (Formatter None) (ErrObject e2) None
              = ''Error: boom\<newline>No stack or location''"
    by (simp add: h2 t2 indentLines_def)
  from a b c show ?thesis unfolding e1_def e2_def by blast
qed

section \<open>The header at the start of the stack\<close>

lemma normalizeStackTrace_not_Nil: "normalizeStackTrace stk flt g \<noteq> []"
  by (simp add: normalizeStackTrace_def)

lemma composedHeader_not_Nil: "composedHeader e \<noteq> []"
  by (simp add: composedHeader_def)

text \<open>
  C1, as the claim states it, fails: only the copy of the header at the start of the stack
  is removed. A stack that names the same error again on a later line (here a line
  \<^verbatim>\<open>Caused by\<close>) begins with the composed header, and the returned message has the
  header text twice.
\<close>

theorem header_once_counterexample:
  "prefix (composedHeader (errorWith None (Some ''boom'')
             (Some (''Error: boom\<newline>    at check (a.js:1:1)\<newline>'' @
                    ''Caused by: Error: boom\<newline>    at run (b.js:2:2)''))))
          (''Error: boom\<newline>    at check (a.js:1:1)\<newline>'' @
           ''Caused by: Error: boom\<newline>    at run (b.js:2:2)'') \<and>
   format sampleExternals (Formatter None)
     (ErrObject (errorWith None (Some ''boom'')
        (Some (''Error: boom\<newline>    at check (a.js:1:1)\<newline>'' @
               ''Caused by: Error: boom\<newline>    at run (b.js:2:2)'')))) None
     = ''Error: boom\<newline>  at check  <a.js:1:1>\<newline>Caused by: Error: boom\<newline>  at run  <b.js:2:2>'' \<and>
   occurrences ''Error: boom''
     (''Error: boom\<newline>  at check  <a.js:1:1>\<newline>Caused by: Error: boom\<newline>  at run  <b.js:2:2>'') = 2"
  by code_simp

text \<open>
  C1, amended. If the stack of an error object begins with the composed header, exactly
  that prefix is removed before the stack is normalized. The returned message is then,
  before the indentation of the options is applied to it: the header, the diff section if
  any, and then either the normalized rest of the stack, when that has a character other
  than white space, or else the trailer of an error without a stack (the location line and
  the marker \<^verbatim>\<open>No stack\<close>, or the marker \<^verbatim>\<open>No stack or location\<close>). If the stack
  is not empty, does not begin with the composed header and begins with the message, exactly
  the length of the message is removed instead, and the returned message is built in the
  same way from the rest. How often the header text occurs in the returned message is not
  part of this statement.
\<close>

theorem stack_header_stripped:
  "(stack e = Some (composedHeader e @ rest) \<longrightarrow>
      dedupedStack e (composedHeader e @ rest) = rest \<and>
      normalizedStack this e
        = Some (normalizeStackTrace rest (filterErrorStack this) (getSource this)) \<and>
      format ext this (ErrObject e) options
        = indentLines options
           (composedHeader e @ diffSection ext e @
            (if hasNonSpace (normalizeStackTrace rest (filterErrorStack this) (getSource this))
             then normalizeStackTrace rest (filterErrorStack this) (getSource this)
             else trailer this (e\<lparr>stack := None\<rparr>)))) \<and>
   (message e = Some m \<and> stack e = Some (m @ rest) \<and> m @ rest \<noteq> []
      \<and> \<not> prefix (composedHeader e) (m @ rest) \<longrightarrow>
      dedupedStack e (m @ rest) = rest \<and>
      normalizedStack this e
        = Some (normalizeStackTrace rest (filterErrorStack this) (getSource this)) \<and>
      format ext this (ErrObject e) options
        = indentLines options
           (composedHeader e @ diffSection ext e @
            (if hasNonSpace (normalizeStackTrace rest (filterErrorStack this) (getSource this))
             then normalizeStackTrace rest (filterErrorStack this) (getSource this)
             else trailer this (e\<lparr>stack := None\<rparr>))))"
proof -
  let ?N = "normalizeStackTrace rest (filterErrorStack this) (getSource this)"
  have ns: "normalizedStack this e
              = Some (normalizeStackTrace (dedupedStack e stk) (filterErrorStack this) (getSource this))"
    if "stack e = Some stk" "stk \<noteq> []" for stk
    using that by (simp add: normalizedStack_def)
  have tr: "trailer this e =
          (if hasNonSpace (normalizeStackTrace (dedupedStack e stk) (filterErrorStack this) (getSource this))
           then normalizeStackTrace (dedupedStack e stk) (filterErrorStack this) (getSource this)
           else trailer this (e\<lparr>stack := None\<rparr>))"
    if "stack e = Some stk" "stk \<noteq> []" for stk
    using that
    by (simp add: trailer_def normalizedStack_def normalizeStackTrace_not_Nil split: option.splits)
  have fm: "format ext this (ErrObject e) options
              = indentLines options (composedHeader e @ diffSection ext e @ trailer this e)"
    if "stack e = Some stk" "stk \<noteq> []" for stk
    using that by (simp add: format_def)
  have d1: "dedupedStack e (composedHeader e @ rest) = rest"
    by (simp add: dedupedStack_def)
  have d2: "dedupedStack e (m @ rest) = rest"
    if "message e = Some m" "\<not> prefix (composedHeader e) (m @ rest)"
    using that by (simp add: dedupedStack_def)
  have 1: "normalizedStack this e = Some ?N \<and>
      format ext this (ErrObject e) options
        = indentLines options
           (composedHeader e @ diffSection ext e @
            (if hasNonSpace ?N then ?N else trailer this (e\<lparr>stack := None\<rparr>)))"
    if s: "stack e = Some (composedHeader e @ rest)"
  proof -
    have ne: "composedHeader e @ rest \<noteq> []"
      by (simp add: composedHeader_not_Nil)
    show ?thesis
      using fm [OF s ne] tr [OF s ne] ns [OF s ne] by (simp only: d1)
  qed
  have 2: "normalizedStack this e = Some ?N \<and>
      format ext this (ErrObject e) options
        = indentLines options
           (composedHeader e @ diffSection ext e @
            (if hasNonSpace ?N then ?N else trailer this (e\<lparr>stack := None\<rparr>)))"
    if m: "message e = Some m" and s: "stack e = Some (m @ rest)" and ne: "m @ rest \<noteq> []"
      and np: "\<not> prefix (composedHeader e) (m @ rest)"
    using fm [OF s ne] tr [OF s ne] ns [OF s ne] by (simp only: d2 [OF m np])
  from d1 d2 1 2 show ?thesis by blast
qed

theorem stack_header_stripped_witness:
  "format sampleExternals (Formatter None)
     (ErrObject (errorWith None (Some ''boom'') (Some ''Error: boom\<newline>    at check (a.js:1:1)'')))
     (Some \<lparr>space = Some ''  ''\<rparr>)
     = ''  Error: boom\<newline>    at check  <a.js:1:1>'' \<and>
   format sampleExternals (Formatter None)
     (ErrObject (errorWith None (Some ''boom'') (Some ''Error: boom''))) None
     = ''Error: boom\<newline>No stack or location'' \<and>
   \<not> prefix (composedHeader (errorWith (Some ''AssertionError'') (Some ''boom'')
                 (Some ''boom\<newline>check@a.js:1:1'')))
            (''boom'' @ ''\<newline>check@a.js:1:1'') \<and>
   format sampleExternals (Formatter None)
     (ErrObject (errorWith (Some ''AssertionError'') (Some ''boom'')
        (Some ''boom\<newline>check@a.js:1:1''))) None
     = ''AssertionError: boom\<newline>  at check  <a.js:1:1>''"
proof -
  define e1 where "e1 = errorWith None (Some ''boom'') (Some ''Error: boom\<newline>    at check (a.js:1:1)'')"
  define e2 where "e2 = errorWith (Some ''AssertionError'') (Some ''boom'')
        (Some ''boom\<newline>check@a.js:1:1'')"
  define e3 where "e3 = errorWith None (Some ''boom'') (Some ''Error: boom'')"
  have h1: "composedHeader e1 = ''Error: boom''"
    unfolding e1_def by code_simp
  have s1: "stack e1 = Some (composedHeader e1 @ ''\<newline>    at check (a.js:1:1)'')"
    unfolding h1 by (simp add: e1_def errorWith_def)
  have v1: "indentLines (Some \<lparr>space = Some ''  ''\<rparr>)
           (composedHeader e1 @ diffSection sampleExternals e1 @
            (if hasNonSpace (normalizeStackTrace ''\<newline>    at check (a.js:1:1)''
                   (filterErrorStack (Formatter None)) (getSource (Formatter None)))
             then normalizeStackTrace ''\<newline>    at check (a.js:1:1)''
                   (filterErrorStack (Formatter None)) (getSource (Formatter None))
             else trailer (Formatter None) (e1\<lparr>stack := None\<rparr>)))
          = ''  Error: boom\<newline>    at check  <a.js:1:1>''"
    unfolding e1_def by code_simp
  have h3: "composedHeader e3 = ''Error: boom''"
    unfolding e3_def by code_simp
  have s3: "stack e3 = Some (composedHeader e3 @ [])"
    unfolding h3 by (simp add: e3_def errorWith_def)
  have v3: "indentLines None
           (composedHeader e3 @ diffSection sampleExternals e3 @
            (if hasNonSpace (normalizeStackTrace []
                   (filterErrorStack (Formatter None)) (getSource (Formatter None)))
             then normalizeStackTrace []
                   (filterErrorStack (Formatter None)) (getSource (Formatter None))
             else trailer (Formatter None) (e3\<lparr>stack := None\<rparr>)))
          = ''Error: boom\<newline>No stack or location''"
    unfolding e3_def by code_simp
  have m2: "message e2 = Some ''boom'' \<and> stack e2 = Some (''boom'' @ ''\<newline>check@a.js:1:1'')
              \<and> ''boom'' @ ''\<newline>check@a.js:1:1'' \<noteq> []
              \<and> \<not> prefix (composedHeader e2) (''boom'' @ ''\<newline>check@a.js:1:1'')"
    unfolding e2_def by code_simp
  have v2: "indentLines None
           (composedHeader e2 @ diffSection sampleExternals e2 @
            (if hasNonSpace (normalizeStackTrace ''\<newline>check@a.js:1:1''
                   (filterErrorStack (Formatter None)) (getSource (Formatter None)))
             then normalizeStackTrace ''\<newline>check@a.js:1:1''
                   (filterErrorStack (Formatter None)) (getSource (Formatter None))
             else trailer (Formatter None) (e2\<lparr>stack := None\<rparr>)))
          = ''AssertionError: boom\<newline>  at check  <a.js:1:1>''"
    unfolding e2_def by code_simp
  note A = stack_header_stripped [where e = e1 and rest = "''\<newline>    at check (a.js:1:1)''"
             and this = "Formatter None" and ext = sampleExternals
             and options = "Some \<lparr>space = Some ''  ''\<rparr>"]
  have a: "format sampleExternals (Formatter None) (ErrObject e1) (Some \<lparr>space = Some ''  ''\<rparr>)
             = ''  Error: boom\<newline>    at check  <a.js:1:1>''"
    by (rule trans [OF A [THEN conjunct1, THEN mp, OF s1, THEN conjunct2, THEN conjunct2] v1])
  note C = stack_header_stripped [where e = e3 and rest = "[]" and this = "Formatter None"
             and ext = sampleExternals and options = None]
  have c: "format sampleExternals (Formatter None) (ErrObject e3) None
             = ''Error: boom\<newline>No stack or location''"
    by (rule trans [OF C [THEN conjunct1, THEN mp, OF s3, THEN conjunct2, THEN conjunct2] v3])
  note B = stack_header_stripped [where e = e2 and m = "''boom''" and rest = "''\<newline>check@a.js:1:1''"
             and this = "Formatter None" and ext = sampleExternals and options = None]
  have b: "format sampleExternals (Formatter None) (ErrObject e2) None
             = ''AssertionError: boom\<newline>  at check  <a.js:1:1>''"
    by (rule trans [OF B [THEN conjunct2, THEN mp, OF m2, THEN conjunct2, THEN conjunct2] v2])
  have np: "\<not> prefix (composedHeader e2) (''boom'' @ ''\<newline>check@a.js:1:1'')"
    using m2 by (elim conjE)
  show ?thesis
    unfolding e1_def [symmetric] e2_def [symmetric] e3_def [symmetric]
    by (intro conjI a c np b)
qed

section \<open>The diff generator, line by line\<close>

lemma joinLines_Cons: "xs \<noteq> [] \<Longrightarrow> joinLines (x # xs) = x @ CHR 0x0A # joinLines xs"
  by (cases xs) simp_all

lemma splitLines_unfold:
  "splitLines s =
     takeWhile (\<lambda>c. c \<noteq> CHR 0x0A) s #
     (case dropWhile (\<lambda>c. c \<noteq> CHR 0x0A) s of [] \<Rightarrow> [] | t # u \<Rightarrow> splitLines u)"
  by (induction s) (auto split: list.splits)

lemma joinLines_splitLines: "joinLines (splitLines s) = s"
proof (induction s)
  case Nil
  show ?case by simp
next
  case (Cons c cs)
  show ?case
  proof (cases "c = CHR 0x0A")
    case True
    with Cons show ?thesis by (simp add: joinLines_Cons splitLines_not_Nil)
  next
    case False
    obtain l ls where sp: "splitLines cs = l # ls"
      using splitLines_not_Nil [of cs] by (cases "splitLines cs") auto
    with Cons False show ?thesis
      by (cases ls) auto
  qed
qed

lemma splitLines_chars:
  "l \<in> set (splitLines s) \<Longrightarrow> c \<in> set l \<Longrightarrow> c \<in> set s \<and> c \<noteq> CHR 0x0A"
proof (induction s arbitrary: l)
  case Nil
  then show ?case by simp
next
  case (Cons d ds)
  show ?case
  proof (cases "d = CHR 0x0A")
    case True
    with Cons show ?thesis by auto
  next
    case False
    obtain m ms where sp: "splitLines ds = m # ms"
      using splitLines_not_Nil [of ds] by (cases "splitLines ds") auto
    with Cons.prems False have "l = d # m \<or> l \<in> set ms" by auto
    then show ?thesis
    proof
      assume "l = d # m"
      with Cons.prems(2) have "c = d \<or> c \<in> set m" by auto
      then show ?thesis
        using Cons.IH [of m] sp False by auto
    next
      assume "l \<in> set ms"
      then show ?thesis
        using Cons.IH [of l] sp Cons.prems(2) by auto
    qed
  qed
qed

lemma splitLines_joinLines:
  "ls \<noteq> [] \<Longrightarrow> \<forall>l\<in>set ls. CHR 0x0A \<notin> set l \<Longrightarrow> splitLines (joinLines ls) = ls"
proof (induction ls rule: joinLines.induct)
  case 1
  then show ?case by simp
next
  case (2 l)
  then show ?case by (simp add: splitLines_no_nl)
next
  case (3 l m ls)
  then have "splitLines (joinLines (m # ls)) = m # ls" by simp
  with 3 show ?case
    by (simp add: splitLines_append_nl splitLines_no_nl)
qed

lemma replaceIndicators_lines:
  "CHR 0x0D \<notin> set s \<Longrightarrow> replaceIndicators s = joinLines (map recodeLine (splitLines s))"
proof (induction s rule: replaceIndicators.induct)
  case (1 s)
  have lt: "(\<lambda>c. \<not> isLineTerminator c) x = (x \<noteq> CHR 0x0A)" if "x \<in> set s" for x
    using that "1.prems" by (auto simp: isLineTerminator_def)
  have tw: "takeWhile (\<lambda>c. \<not> isLineTerminator c) s = takeWhile (\<lambda>c. c \<noteq> CHR 0x0A) s"
    by (rule takeWhile_cong) (simp_all add: lt)
  have dw: "dropWhile (\<lambda>c. \<not> isLineTerminator c) s = dropWhile (\<lambda>c. c \<noteq> CHR 0x0A) s"
    by (rule dropWhile_cong) (simp_all add: lt)
  show ?case
  proof (cases "dropWhile (\<lambda>c. \<not> isLineTerminator c) s")
    case Nil
    with dw have dn: "dropWhile (\<lambda>c. c \<noteq> CHR 0x0A) s = []" by simp
    have "replaceIndicators s = recodeLine (takeWhile (\<lambda>c. c \<noteq> CHR 0x0A) s)"
      by (subst replaceIndicators.simps) (simp add: tw dw dn)
    moreover have "splitLines s = [takeWhile (\<lambda>c. c \<noteq> CHR 0x0A) s]"
      by (subst splitLines_unfold) (simp add: dn)
    ultimately show ?thesis by simp
  next
    case (Cons t u)
    with dw have dc: "dropWhile (\<lambda>c. c \<noteq> CHR 0x0A) s = t # u" by simp
    have "set (t # u) \<subseteq> set s"
      unfolding dc [symmetric] by (auto dest: set_dropWhileD)
    with "1.prems" have "CHR 0x0D \<notin> set u" by auto
    with "1.IH" [OF Cons] have ih: "replaceIndicators u = joinLines (map recodeLine (splitLines u))" .
    have "hd (dropWhile (\<lambda>c. c \<noteq> CHR 0x0A) s) = CHR 0x0A"
      using dc hd_dropWhile [of "\<lambda>c. c \<noteq> CHR 0x0A" s] by auto
    with dc have t: "t = CHR 0x0A" by simp
    have "replaceIndicators s
            = recodeLine (takeWhile (\<lambda>c. c \<noteq> CHR 0x0A) s) @ CHR 0x0A # replaceIndicators u"
      by (subst replaceIndicators.simps) (simp add: tw dw dc t)
    moreover have "splitLines s = takeWhile (\<lambda>c. c \<noteq> CHR 0x0A) s # splitLines u"
      by (subst splitLines_unfold) (simp add: dc)
    ultimately show ?thesis
      by (simp add: ih joinLines_Cons splitLines_not_Nil)
  qed
qed

lemma replaceRanges_False_line:
  "\<forall>c\<in>set l. \<not> isLineTerminator c \<Longrightarrow> replaceRanges False (l @ r) = l @ replaceRanges False r"
  by (induction l) simp_all

lemma matchRange_None: "\<not> prefix ''@@'' s \<Longrightarrow> matchRange s = None"
  by (simp add: matchRange_def)

lemma not_prefix_at_append:
  assumes "\<not> prefix ''@@'' l" and "r = [] \<or> hd r = CHR 0x0A"
  shows "\<not> prefix ''@@'' (l @ r)"
proof (cases l)
  case Nil
  with assms show ?thesis by (cases r) auto
next
  case (Cons c cs)
  with assms show ?thesis
    by (cases cs; cases r) auto
qed

lemma replaceRanges_plain_line:
  assumes "\<not> prefix ''@@'' l" and "\<forall>c\<in>set l. \<not> isLineTerminator c"
    and "r = [] \<or> (\<exists>r'. r = CHR 0x0A # r')"
  shows "replaceRanges True (l @ r) = l @ replaceRanges False r"
proof (cases l)
  case Nil
  from assms(3) show ?thesis
  proof
    assume "r = []"
    with Nil show ?thesis by simp
  next
    assume "\<exists>r'. r = CHR 0x0A # r'"
    then obtain r' where r: "r = CHR 0x0A # r'" ..
    have "matchRange (CHR 0x0A # r') = None"
      by (rule matchRange_None) simp
    with Nil r show ?thesis by (simp add: isLineTerminator_def)
  qed
next
  case (Cons c cs)
  have "\<not> prefix ''@@'' (l @ r)"
    using assms(1,3) by (intro not_prefix_at_append) auto
  then have "matchRange (c # cs @ r) = None"
    using Cons by (simp add: matchRange_None)
  moreover have "\<not> isLineTerminator c" and "\<forall>c\<in>set cs. \<not> isLineTerminator c"
    using assms(2) Cons by auto
  ultimately show ?thesis
    using Cons by (simp add: replaceRanges_False_line)
qed

lemma matchRange_whole_line:
  assumes "matchRange l = Some []" and "r = [] \<or> (\<exists>r'. r = CHR 0x0A # r')"
  shows "matchRange (l @ r) = Some r \<and> l \<noteq> []"
proof -
  define u where "u = dropWhile (\<lambda>c. c \<noteq> CHR ''@'') (drop 2 l)"
  from assms(1) have p: "prefix ''@@'' l" and pu: "prefix ''@@'' u" and du: "drop 2 u = []"
    by (auto simp: matchRange_def Let_def u_def split: if_splits)
  from p have len: "2 \<le> length l" by (auto simp: prefix_def)
  from pu du have u: "u = ''@@''"
    by (auto simp: prefix_def)
  have d2: "drop 2 (l @ r) = drop 2 l @ r"
    using len by simp
  define m where "m = takeWhile (\<lambda>c. c \<noteq> CHR ''@'') (drop 2 l)"
  have dl: "drop 2 l = m @ u"
    by (simp add: u_def m_def)
  have "\<And>x. x \<in> set m \<Longrightarrow> x \<noteq> CHR ''@''"
    unfolding m_def by (auto dest: set_takeWhileD)
  then have "dropWhile (\<lambda>c. c \<noteq> CHR ''@'') (m @ (u @ r)) = dropWhile (\<lambda>c. c \<noteq> CHR ''@'') (u @ r)"
    by (rule dropWhile_append2)
  then have "dropWhile (\<lambda>c. c \<noteq> CHR ''@'') (drop 2 l @ r) = u @ r"
    by (simp add: dl u)
  then have dw: "dropWhile (\<lambda>c. c \<noteq> CHR ''@'') (drop 2 (l @ r)) = ''@@'' @ r"
    unfolding d2 u by simp
  from p have p': "prefix ''@@'' (l @ r)"
    by (auto simp: prefix_def)
  have "drop 2 (''@@'' @ r) = r" by simp
  with assms(2) p' dw have "matchRange (l @ r) = Some r"
    by (auto simp: matchRange_def Let_def isLineTerminator_def)
  with p show ?thesis by auto
qed

lemma replaceRanges_joined:
  assumes "ls \<noteq> []"
    and "\<forall>l\<in>set ls. \<forall>c\<in>set l. \<not> isLineTerminator c"
    and "\<forall>l\<in>set ls. prefix ''@@'' l \<longrightarrow> matchRange l = Some []"
  shows "replaceRanges True (joinLines ls)
           = joinLines (map (\<lambda>l. if matchRange l = Some [] then ''[...]'' else l) ls)"
  using assms
proof (induction ls rule: joinLines.induct)
  case 1
  then show ?case by simp
next
  case (2 l)
  show ?case
  proof (cases "matchRange l = Some []")
    case True
    from matchRange_whole_line [OF True, of "[]"] obtain c cs where l: "l = c # cs"
      and m: "matchRange (c # cs) = Some []"
      by (cases l) auto
    then show ?thesis using True by simp
  next
    case False
    with 2 have "\<not> prefix ''@@'' l" by auto
    from replaceRanges_plain_line [OF this, of "[]"] 2 False show ?thesis by simp
  qed
next
  case (3 l m ls)
  let ?rest = "joinLines (m # ls)"
  from 3 have ih: "replaceRanges True ?rest
           = joinLines (map (\<lambda>l. if matchRange l = Some [] then ''[...]'' else l) (m # ls))"
    by simp
  have r: "CHR 0x0A # ?rest = [] \<or> (\<exists>r'. CHR 0x0A # ?rest = CHR 0x0A # r')" by simp
  have nl: "replaceRanges False (CHR 0x0A # ?rest) = CHR 0x0A # replaceRanges True ?rest"
    by (simp add: isLineTerminator_def)
  show ?case
  proof (cases "matchRange l = Some []")
    case True
    from matchRange_whole_line [OF True r] obtain c cs where l: "l = c # cs"
      and m: "matchRange (c # cs @ CHR 0x0A # ?rest) = Some (CHR 0x0A # ?rest)"
      by (cases l) auto
    have "replaceRanges True (l @ CHR 0x0A # ?rest) = ''[...]'' @ replaceRanges False (CHR 0x0A # ?rest)"
      unfolding l using m by simp
    with True ih nl show ?thesis by simp
  next
    case False
    with 3 have np: "\<not> prefix ''@@'' l" by auto
    from 3 have "\<forall>c\<in>set l. \<not> isLineTerminator c" by simp
    from replaceRanges_plain_line [OF np this r]
    have "replaceRanges True (l @ CHR 0x0A # ?rest) = l @ replaceRanges False (CHR 0x0A # ?rest)" .
    with False ih nl show ?thesis by simp
  qed
qed

lemma replaceRanges_lines:
  assumes "CHR 0x0D \<notin> set s"
    and "\<forall>l\<in>set (splitLines s). prefix ''@@'' l \<longrightarrow> matchRange l = Some []"
  shows "replaceRanges True s
           = joinLines (map (\<lambda>l. if matchRange l = Some [] then ''[...]'' else l) (splitLines s))"
proof -
  have "\<forall>l\<in>set (splitLines s). \<forall>c\<in>set l. \<not> isLineTerminator c"
    using assms(1) by (auto simp: isLineTerminator_def dest: splitLines_chars)
  from replaceRanges_joined [OF splitLines_not_Nil this assms(2)]
  show ?thesis by (simp add: joinLines_splitLines)
qed

lemma joinLines_chars: "c \<in> set (joinLines ls) \<Longrightarrow> c = CHR 0x0A \<or> (\<exists>l\<in>set ls. c \<in> set l)"
  by (induction ls rule: joinLines.induct) auto

lemma replaceRanges_not_Nil: "s \<noteq> [] \<Longrightarrow> replaceRanges b s \<noteq> []"
  by (cases s) (auto split: option.splits)

lemma recodeLine_marked:
  assumes "prefix ''@@'' l \<longrightarrow> matchRange l = Some []"
    and "l \<noteq> ''+[...]''" and "l \<noteq> ''-[...]''"
  shows "recodeLine (if matchRange l = Some [] then ''[...]'' else l) = annotatedLine l"
proof (cases "matchRange l = Some []")
  case True
  then show ?thesis by (simp add: recodeLine_def annotatedLine_def)
next
  case False
  have plus: "drop 1 l \<noteq> ''[...]''" if "prefix ''+'' l"
    using that assms(2) by (cases l) auto
  have minus: "drop 1 l \<noteq> ''[...]''" if "prefix ''-'' l"
    using that assms(3) by (cases l) auto
  have pm: "\<not> (prefix ''+'' l \<and> prefix ''-'' l)"
    by (cases l) auto
  have t1: "take 1 l = ''+''" if "prefix ''+'' l"
    using that by (cases l) auto
  have t2: "take 1 l = ''-''" if "prefix ''-'' l"
    using that by (cases l) auto
  have n1: "\<not> prefix ''+'' ''[...]''" and n2: "\<not> prefix ''-'' ''[...]''"
    by simp_all
  consider "prefix ''+'' l" | "prefix ''-'' l" | "\<not> prefix ''+'' l" "\<not> prefix ''-'' l"
    by blast
  then show ?thesis
  proof cases
    case 1
    with pm have "\<not> prefix ''-'' l" by blast
    with 1 False plus t1 n1 show ?thesis
      by (auto simp: recodeLine_def annotatedLine_def Let_def)
  next
    case 2
    with pm have "\<not> prefix ''+'' l" by blast
    with 2 False minus t2 n2 show ?thesis
      by (auto simp: recodeLine_def annotatedLine_def Let_def)
  next
    case 3
    with False show ?thesis
      by (auto simp: recodeLine_def annotatedLine_def Let_def)
  qed
qed

text \<open>
  C5. The text that the two replacements work on is the patch without its first five lines
  and its last one. It is taken to be a patch body of serialized values: the line feed is
  its only line terminator, a line that starts with \<^verbatim>\<open>@@\<close> is a whole range line,
  and no line is the bare text \<^verbatim>\<open>[...]\<close> behind an indicator. Then the diff is, line
  by line: the marker \<^verbatim>\<open>[...]\<close> for a range line, and for every other line
  \<^verbatim>\<open>E\<close> and a blank in place of a leading \<^verbatim>\<open>+\<close>, \<^verbatim>\<open>A\<close> and a blank in place of
  a leading \<^verbatim>\<open>-\<close>, and a blank before a line with neither, the rest of the line
  unchanged; a marker line stays as it is. An empty text gives the empty diff.
\<close>

theorem createDiff_lines:
  assumes "CHR 0x0D \<notin> set (patchBody ext act expd)"
    and "\<forall>l\<in>set (splitLines (patchBody ext act expd)). prefix ''@@'' l \<longrightarrow> matchRange l = Some []"
    and "''+[...]'' \<notin> set (splitLines (patchBody ext act expd))"
    and "''-[...]'' \<notin> set (splitLines (patchBody ext act expd))"
  shows "createDiff ext act expd
           = (if patchBody ext act expd = [] then []
              else joinLines (map annotatedLine (splitLines (patchBody ext act expd))))"
proof (cases "patchBody ext act expd = []")
  case True
  then show ?thesis by (simp add: createDiff_def)
next
  case False
  let ?mark = "\<lambda>l. if matchRange l = Some [] then ''[...]'' else l"
  let ?ls = "splitLines (patchBody ext act expd)"
  have d: "replaceRanges True (patchBody ext act expd) = joinLines (map ?mark ?ls)"
    by (rule replaceRanges_lines [OF assms(1,2)])
  have ne: "replaceRanges True (patchBody ext act expd) \<noteq> []"
    by (rule replaceRanges_not_Nil [OF False])
  have chars: "c \<noteq> CHR 0x0A \<and> c \<noteq> CHR 0x0D" if "l \<in> set ?ls" "c \<in> set (?mark l)" for l c
  proof (cases "matchRange l = Some []")
    case True
    with that(2) show ?thesis by auto
  next
    case False
    with that splitLines_chars [of l "patchBody ext act expd" c] assms(1) show ?thesis by auto
  qed
  have nonl: "\<forall>l\<in>set (map ?mark ?ls). CHR 0x0A \<notin> set l"
  proof
    fix k
    assume "k \<in> set (map ?mark ?ls)"
    then obtain l where l: "l \<in> set ?ls" and k: "k = ?mark l" by auto
    show "CHR 0x0A \<notin> set k"
    proof
      assume "CHR 0x0A \<in> set k"
      with chars [OF l, of "CHR 0x0A"] k show False by blast
    qed
  qed
  have nocr: "CHR 0x0D \<notin> set (joinLines (map ?mark ?ls))"
  proof
    assume "CHR 0x0D \<in> set (joinLines (map ?mark ?ls))"
    from joinLines_chars [OF this] obtain l where "l \<in> set ?ls" "CHR 0x0D \<in> set (?mark l)"
      by auto
    with chars show False by blast
  qed
  have sp: "splitLines (joinLines (map ?mark ?ls)) = map ?mark ?ls"
    by (rule splitLines_joinLines [OF _ nonl]) (simp add: splitLines_not_Nil)
  have rec: "map recodeLine (map ?mark ?ls) = map annotatedLine ?ls"
  proof -
    have "recodeLine (?mark l) = annotatedLine l" if "l \<in> set ?ls" for l
      using that assms(2,3,4) by (intro recodeLine_marked) auto
    then show ?thesis by simp
  qed
  have "createDiff ext act expd = replaceIndicators (joinLines (map ?mark ?ls))"
    using ne by (simp add: createDiff_def Let_def d)
  also have "\<dots> = joinLines (map recodeLine (splitLines (joinLines (map ?mark ?ls))))"
    by (rule replaceIndicators_lines [OF nocr])
  also have "\<dots> = joinLines (map annotatedLine ?ls)"
    by (simp only: sp rec)
  finally show ?thesis using False by simp
qed

theorem createDiff_lines_witness:
  "CHR 0x0D \<notin> set (patchBody twoHunkExternals (JObject []) (JObject [])) \<and>
   ''@@ -9,3 +9,3 @@'' \<in> set (splitLines (patchBody twoHunkExternals (JObject []) (JObject []))) \<and>
   createDiff twoHunkExternals (JObject []) (JObject [])
     = ''  {\<newline>A   a: 1,\<newline>E   a: 2,\<newline>    b: 0,\<newline>[...]\<newline>    y: 0,\<newline>A   z: 1\<newline>E   z: 2\<newline>  }''"
proof -
  have b: "splitLines (patchBody twoHunkExternals (JObject []) (JObject []))
             = ['' {'', ''-  a: 1,'', ''+  a: 2,'', ''   b: 0,'', ''@@ -9,3 +9,3 @@'',
                ''   y: 0,'', ''-  z: 1'', ''+  z: 2'', '' }'']"
    by code_simp
  have h1: "CHR 0x0D \<notin> set (patchBody twoHunkExternals (JObject []) (JObject []))"
    by code_simp
  have m: "matchRange ''@@ -9,3 +9,3 @@'' = Some []"
    by code_simp
  have h2: "\<forall>l\<in>set (splitLines (patchBody twoHunkExternals (JObject []) (JObject []))).
              prefix ''@@'' l \<longrightarrow> matchRange l = Some []"
    unfolding b using m by simp
  have h3: "''+[...]'' \<notin> set (splitLines (patchBody twoHunkExternals (JObject []) (JObject [])))"
    unfolding b by simp
  have h4: "''-[...]'' \<notin> set (splitLines (patchBody twoHunkExternals (JObject []) (JObject [])))"
    unfolding b by simp
  have ne: "patchBody twoHunkExternals (JObject []) (JObject []) \<noteq> []"
    by code_simp
  have v: "joinLines (map annotatedLine
             ['' {'', ''-  a: 1,'', ''+  a: 2,'', ''   b: 0,'', ''@@ -9,3 +9,3 @@'',
              ''   y: 0,'', ''-  z: 1'', ''+  z: 2'', '' }''])
           = ''  {\<newline>A   a: 1,\<newline>E   a: 2,\<newline>    b: 0,\<newline>[...]\<newline>    y: 0,\<newline>A   z: 1\<newline>E   z: 2\<newline>  }''"
    by code_simp
  have r: "''@@ -9,3 +9,3 @@'' \<in> set (splitLines (patchBody twoHunkExternals (JObject []) (JObject [])))"
    unfolding b by simp
  from createDiff_lines [OF h1 h2 h3 h4] ne
  have "createDiff twoHunkExternals (JObject []) (JObject [])
          = joinLines (map annotatedLine (splitLines (patchBody twoHunkExternals (JObject []) (JObject []))))"
    by simp
  with v have "createDiff twoHunkExternals (JObject []) (JObject [])
     = ''  {\<newline>A   a: 1,\<newline>E   a: 2,\<newline>    b: 0,\<newline>[...]\<newline>    y: 0,\<newline>A   z: 1\<newline>E   z: 2\<newline>  }''"
    unfolding b by simp
  with h1 r show ?thesis by blast
qed

section \<open>Normalizing a normalized stack\<close>

lemma trimEnd_fixed: "s \<noteq> [] \<Longrightarrow> \<not> isSpace (last s) \<Longrightarrow> trimEnd s = s"
  by (cases s rule: rev_cases) (simp_all add: trimEnd_def)

lemma trimEnd_last: "trimEnd s \<noteq> [] \<Longrightarrow> \<not> isSpace (last (trimEnd s))"
proof -
  assume a: "trimEnd s \<noteq> []"
  then have ne: "dropWhile isSpace (rev s) \<noteq> []"
    by (simp add: trimEnd_def)
  then have "\<not> isSpace (hd (dropWhile isSpace (rev s)))"
    by (rule hd_dropWhile)
  with ne show ?thesis
    by (simp add: trimEnd_def last_rev)
qed

lemma splitLines_last:
  "t \<noteq> [] \<Longrightarrow> last t \<noteq> CHR 0x0A \<Longrightarrow>
   last (splitLines t) \<noteq> [] \<and> last (last (splitLines t)) = last t"
proof (induction t)
  case Nil
  then show ?case by simp
next
  case (Cons c cs)
  show ?case
  proof (cases "cs = []")
    case True
    with Cons.prems show ?thesis by simp
  next
    case False
    with Cons have ih: "last (splitLines cs) \<noteq> [] \<and> last (last (splitLines cs)) = last cs"
      by simp
    obtain m ms where sp: "splitLines cs = m # ms"
      using splitLines_not_Nil [of cs] by (cases "splitLines cs") auto
    show ?thesis
    proof (cases "c = CHR 0x0A")
      case True
      with ih False show ?thesis by (simp add: splitLines_not_Nil)
    next
      case c: False
      show ?thesis
      proof (cases ms)
        case Nil
        with ih sp c False show ?thesis by auto
      next
        case (Cons a as)
        with ih sp c False show ?thesis by auto
      qed
    qed
  qed
qed

lemma joinLines_last:
  "P \<noteq> [] \<Longrightarrow> last P \<noteq> [] \<Longrightarrow> joinLines P \<noteq> [] \<and> last (joinLines P) = last (last P)"
  by (induction P rule: joinLines.induct) auto

lemma stripBlank_id: "\<not> isBlank (lineAt0 ls) \<Longrightarrow> stripBlank ls = ls"
  by (subst stripBlank.simps) simp

lemma stripBlank_empty_line: "stripBlank ([] # ls) = stripBlank ls"
  by (subst stripBlank.simps) (simp add: isBlank_def lineAt0_def)

lemma matchChromeCall_chars:
  "matchChromeCall l = Some (f, s) \<Longrightarrow> set f \<subseteq> set l \<and> set s \<subseteq> set l"
proof -
  assume a: "matchChromeCall l = Some (f, s)"
  define body where "body = drop 3 (dropWhile isSpace l)"
  from a obtain n where f: "f = take n body" and s: "s = the (parenSource (drop n body))"
    and p: "parenSource (drop n body) \<noteq> None"
    by (auto simp: matchChromeCall_def Let_def body_def split: if_splits option.splits
             dest!: find_SomeD)
  have body: "set body \<subseteq> set l"
    unfolding body_def by (meson set_drop_subset set_dropWhileD subsetI subset_trans subsetD)
  have "set f \<subseteq> set body"
    unfolding f by (rule set_take_subset)
  moreover from p have "s = butlast (drop 2 (drop n body))"
    unfolding s by (simp add: parenSource_def split: if_splits)
  then have "set s \<subseteq> set body"
    by (metis in_set_butlastD in_set_dropD subsetI)
  ultimately show ?thesis using body by blast
qed

lemma matchChromeAt_chars: "matchChromeAt l = Some s \<Longrightarrow> set s \<subseteq> set l"
proof -
  assume "matchChromeAt l = Some s"
  then have "s = takeWhile (\<lambda>c. \<not> isLineTerminator c) (drop 3 (dropWhile isSpace l))"
    by (auto simp: matchChromeAt_def Let_def split: if_splits)
  then show ?thesis
    by (metis in_set_dropD set_dropWhileD set_takeWhileD subsetI)
qed

lemma matchSafariCall_chars:
  "matchSafariCall l = Some (f, s) \<Longrightarrow> set f \<subseteq> set l \<and> set s \<subseteq> set l"
proof -
  assume "matchSafariCall l = Some (f, s)"
  then have f: "f = takeWhile (\<lambda>c. c \<noteq> CHR ''@'') l"
    and s: "s = takeWhile (\<lambda>c. \<not> isLineTerminator c) (drop 1 (dropWhile (\<lambda>c. c \<noteq> CHR ''@'') l))"
    by (auto simp: matchSafariCall_def Let_def split: if_splits)
  have "set f \<subseteq> set l"
    unfolding f by (auto dest: set_takeWhileD)
  moreover have "set s \<subseteq> set l"
    unfolding s by (metis in_set_dropD set_dropWhileD set_takeWhileD subsetI)
  ultimately show ?thesis by blast
qed

lemma matchSafariUrl_chars: "matchSafariUrl l = Some s \<Longrightarrow> set s \<subseteq> set l"
proof -
  assume a: "matchSafariUrl l = Some s"
  define r where "r = dropWhile isWord l"
  from a have s: "s = takeWhile isWord l @ ''://'' @ takeWhile (\<lambda>c. \<not> isLineTerminator c) (drop 3 r)"
    and p: "prefix ''://'' r"
    by (auto simp: matchSafariUrl_def Let_def r_def split: if_splits)
  have r: "set r \<subseteq> set l"
    unfolding r_def by (auto dest: set_dropWhileD)
  from p have "set ''://'' \<subseteq> set r"
    by (auto simp: prefix_def)
  moreover have "set (takeWhile (\<lambda>c. \<not> isLineTerminator c) (drop 3 r)) \<subseteq> set r"
    by (metis in_set_dropD set_takeWhileD subsetI)
  moreover have "set (takeWhile isWord l) \<subseteq> set l"
    by (auto dest: set_takeWhileD)
  ultimately show ?thesis
    unfolding s using r by auto
qed

lemma formatLine_shape:
  "\<exists>body. formatLine d g = ''  at '' @ body @ ''>'' \<and>
     (set body \<subseteq> set (case func d of None \<Rightarrow> [] | Some f \<Rightarrow> f) \<union> set ''  <'' \<union> set (g (source d)))"
proof (cases "truthyStr (func d)")
  case True
  then obtain f where f: "func d = Some f" by (cases "func d") auto
  show ?thesis
    by (rule exI [of _ "f @ ''  <'' @ g (source d)"]) (use True f in \<open>auto simp: formatLine_def\<close>)
next
  case False
  show ?thesis
    by (rule exI [of _ "''<'' @ g (source d)"]) (use False in \<open>auto simp: formatLine_def\<close>)
qed

lemma formatLine_props:
  "\<not> isBlank (formatLine d g) \<and> formatLine d g \<noteq> [] \<and> \<not> isSpace (last (formatLine d g))"
proof -
  from formatLine_shape obtain body where b: "formatLine d g = ''  at '' @ body @ ''>''"
    by blast
  have "\<not> isSpace (CHR ''a'')" and "\<not> isSpace (CHR ''>'')"
    by (simp_all add: isSpace_def)
  then show ?thesis
    unfolding b by (simp add: isBlank_def)
qed

lemma formatLine_no_nl:
  assumes "CHR 0x0A \<notin> set (case func d of None \<Rightarrow> [] | Some f \<Rightarrow> f)"
    and "CHR 0x0A \<notin> set (g (source d))"
  shows "CHR 0x0A \<notin> set (formatLine d g)"
proof -
  from formatLine_shape obtain body where b: "formatLine d g = ''  at '' @ body @ ''>''"
    and s: "set body \<subseteq> set (case func d of None \<Rightarrow> [] | Some f \<Rightarrow> f) \<union> set ''  <'' \<union> set (g (source d))"
    by blast
  from s assms have "CHR 0x0A \<notin> set body" by auto
  then show ?thesis unfolding b by simp
qed

lemma chromeLine_cases:
  "chromeLine g l = l \<or> (\<exists>d. chromeLine g l = formatLine d g \<and>
      set (case func d of None \<Rightarrow> [] | Some f \<Rightarrow> f) \<subseteq> set l \<and> set (source d) \<subseteq> set l)"
proof (cases "matchChromeCall l")
  case None
  show ?thesis
  proof (cases "matchChromeAt l")
    case n: None
    with None show ?thesis by (simp add: chromeLine_def)
  next
    case (Some s)
    with None matchChromeAt_chars [OF Some] show ?thesis
      by (auto simp: chromeLine_def intro!: exI [of _ "\<lparr>func = None, source = s\<rparr>"])
  qed
next
  case (Some p)
  obtain f s where p: "p = (f, s)" by (cases p)
  from Some p matchChromeCall_chars [of l f s] show ?thesis
    by (auto simp: chromeLine_def intro!: exI [of _ "\<lparr>func = Some f, source = s\<rparr>"])
qed

lemma safariLine_cases:
  "safariLine g l = l \<or> (\<exists>d. safariLine g l = formatLine d g \<and>
      set (case func d of None \<Rightarrow> [] | Some f \<Rightarrow> f) \<subseteq> set l \<and> set (source d) \<subseteq> set l)"
proof (cases "matchSafariCall l")
  case None
  show ?thesis
  proof (cases "matchSafariUrl l")
    case n: None
    with None show ?thesis by (simp add: safariLine_def)
  next
    case (Some s)
    with None matchSafariUrl_chars [OF Some] show ?thesis
      by (auto simp: safariLine_def intro!: exI [of _ "\<lparr>func = None, source = s\<rparr>"])
  qed
next
  case (Some p)
  obtain f s where p: "p = (f, s)" by (cases p)
  from Some p matchSafariCall_chars [of l f s] show ?thesis
    by (auto simp: safariLine_def intro!: exI [of _ "\<lparr>func = Some f, source = s\<rparr>"])
qed

text \<open>What one parsed line keeps of the raw line, for either parser.\<close>

lemma parsed_line_keeps:
  assumes "p = l \<or> (\<exists>d. p = formatLine d g \<and>
      set (case func d of None \<Rightarrow> [] | Some f \<Rightarrow> f) \<subseteq> set l \<and> set (source d) \<subseteq> set l)"
  shows "(\<not> isBlank l \<longrightarrow> \<not> isBlank p) \<and>
         (l \<noteq> [] \<and> \<not> isSpace (last l) \<longrightarrow> p \<noteq> [] \<and> \<not> isSpace (last p)) \<and>
         (CHR 0x0A \<notin> set l \<and> (\<forall>x. CHR 0x0A \<notin> set x \<longrightarrow> CHR 0x0A \<notin> set (g x))
            \<longrightarrow> CHR 0x0A \<notin> set p)"
  using assms
proof
  assume "p = l"
  then show ?thesis by simp
next
  assume "\<exists>d. p = formatLine d g \<and>
      set (case func d of None \<Rightarrow> [] | Some f \<Rightarrow> f) \<subseteq> set l \<and> set (source d) \<subseteq> set l"
  then obtain d where p: "p = formatLine d g"
    and s: "set (case func d of None \<Rightarrow> [] | Some f \<Rightarrow> f) \<subseteq> set l"
    and t: "set (source d) \<subseteq> set l" by blast
  have "CHR 0x0A \<notin> set p"
    if "CHR 0x0A \<notin> set l" "\<forall>x. CHR 0x0A \<notin> set x \<longrightarrow> CHR 0x0A \<notin> set (g x)"
    unfolding p using that s t by (intro formatLine_no_nl) auto
  with formatLine_props [of d g] show ?thesis
    unfolding p by blast
qed

text \<open>
  C4, as the claim states it, fails: the frame content is not the same after a second
  normalization. A frame line of the first output starts with \<^verbatim>\<open>at\<close>, so the second
  pass reads it with the bracket-call parser as a frame without a function name and puts
  the whole text between angle brackets once more. The first stack below has no header
  line and no leading blank line; the second is a line that is in the normalized form
  already.
\<close>

theorem normalize_twice_counterexample:
  "\<not> hasHeader ''    at foo (a.js:1:1)'' \<and>
   \<not> isBlank (lineAt0 (rawLines ''    at foo (a.js:1:1)'')) \<and>
   normalizeStackTrace ''    at foo (a.js:1:1)'' False (\<lambda>t. t) = ''\<newline>  at foo  <a.js:1:1>'' \<and>
   stackLines ''    at foo (a.js:1:1)'' False (\<lambda>t. t) = [''  at foo  <a.js:1:1>''] \<and>
   stackLines (normalizeStackTrace ''    at foo (a.js:1:1)'' False (\<lambda>t. t)) False (\<lambda>t. t)
     = [''  at <foo  <a.js:1:1>>''] \<and>
   stackLines ''  at foo  <a.js:1:1>'' False (\<lambda>t. t) = [''  at <foo  <a.js:1:1>>'']"
  by code_simp

text \<open>
  C4, amended. For every stack with no header line and no leading blank line, with the
  filter off and a source resolver that puts no line feed into a source that has none: the
  second normalization finds no header line, its content lines are exactly the stack lines
  of the first output, and it returns as many stack lines as the first (the frame count is
  the same). Each of its stack lines is the line of the first output at the same position,
  put through the parser of the second pass: the bracket-call parser if the first stack line
  of the first output starts with optional white space, \<^verbatim>\<open>at\<close> and a blank, the
  at-sign parser otherwise. The content of a frame line is not kept by this.
\<close>

theorem normalize_twice_lines:
  assumes "\<not> hasHeader stk" and "\<not> isBlank (lineAt0 (rawLines stk))"
    and "\<forall>x. CHR 0x0A \<notin> set x \<longrightarrow> CHR 0x0A \<notin> set (g x)"
  shows "firstLine (normalizeStackTrace stk False g) = [] \<and>
         contentLines (normalizeStackTrace stk False g) = stackLines stk False g \<and>
         length (stackLines (normalizeStackTrace stk False g) False g)
           = length (stackLines stk False g) \<and>
         stackLines (normalizeStackTrace stk False g) False g
           = map (if startsWithAt (lineAt0 (stackLines stk False g)) then chromeLine g else safariLine g)
               (stackLines stk False g)"
proof -
  define L where "L = rawLines stk"
  define f where "f = (if startsWithAt (lineAt0 L) then chromeLine g else safariLine g)"
  define P where "P = map f L"
  have Lne: "L \<noteq> []"
    by (simp add: L_def rawLines_def splitLines_not_Nil)
  then obtain l0 ls where L: "L = l0 # ls" by (cases L) auto
  from assms(2) have l0: "\<not> isBlank l0"
    by (simp add: L_def [symmetric] L lineAt0_def)
  have cl: "contentLines stk = L"
    using assms(1,2) by (simp add: contentLines_def L_def stripBlank_id)
  have pl: "parsedLines stk g = P"
    by (simp add: parsedLines_def cl P_def f_def processChromeTrace_def processSafariTrace_def)
  have sl: "stackLines stk False g = P"
    by (simp add: stackLines_def pl)
  have N: "normalizeStackTrace stk False g = CHR 0x0A # joinLines P"
    using assms(1) by (simp add: normalizeStackTrace_def sl firstLine_def)
  have keep: "(\<not> isBlank l \<longrightarrow> \<not> isBlank (f l)) \<and>
         (l \<noteq> [] \<and> \<not> isSpace (last l) \<longrightarrow> f l \<noteq> [] \<and> \<not> isSpace (last (f l))) \<and>
         (CHR 0x0A \<notin> set l \<and> (\<forall>x. CHR 0x0A \<notin> set x \<longrightarrow> CHR 0x0A \<notin> set (g x))
            \<longrightarrow> CHR 0x0A \<notin> set (f l))" for l
    unfolding f_def using chromeLine_cases [of g l] safariLine_cases [of g l]
    by (auto intro!: parsed_line_keeps)
  \<comment> \<open>the raw text ends with a character that is not white space\<close>
  define t where "t = trimEnd stk"
  have tne: "t \<noteq> []"
  proof
    assume "t = []"
    then have "L = [[]]" by (simp add: L_def rawLines_def t_def)
    with L l0 show False by (simp add: isBlank_def)
  qed
  then have tl: "\<not> isSpace (last t)"
    unfolding t_def by (rule trimEnd_last)
  then have "last t \<noteq> CHR 0x0A"
    by (auto simp: isSpace_def)
  from splitLines_last [OF tne this] have lastL: "last L \<noteq> []" "last (last L) = last t"
    by (simp_all add: L_def rawLines_def t_def)
  have Pne: "P \<noteq> []"
    using Lne by (simp add: P_def)
  have lastP: "last P = f (last L)"
    using Lne by (simp add: P_def last_map)
  from keep [of "last L"] lastL tl have fl: "f (last L) \<noteq> []" "\<not> isSpace (last (f (last L)))"
    by simp_all
  from joinLines_last [OF Pne] lastP fl
  have jl: "joinLines P \<noteq> []" "\<not> isSpace (last (joinLines P))"
    by simp_all
  have trim: "trimEnd (CHR 0x0A # joinLines P) = CHR 0x0A # joinLines P"
    using jl by (intro trimEnd_fixed) simp_all
  \<comment> \<open>the lines of the first output are its stack lines after one empty line\<close>
  have nonl: "\<forall>p\<in>set P. CHR 0x0A \<notin> set p"
  proof
    fix p
    assume "p \<in> set P"
    then obtain l where l: "l \<in> set L" and p: "p = f l" by (auto simp: P_def)
    from l have "CHR 0x0A \<notin> set l"
      unfolding L_def rawLines_def using splitLines_chars by blast
    with keep [of l] assms(3) show "CHR 0x0A \<notin> set p" by (simp add: p)
  qed
  have "rawLines (normalizeStackTrace stk False g) = splitLines (CHR 0x0A # joinLines P)"
    by (simp add: rawLines_def N trim)
  also have "\<dots> = [] # splitLines (joinLines P)" by simp
  also have "\<dots> = [] # P"
    by (simp add: splitLines_joinLines [OF Pne nonl])
  finally have raw2: "rawLines (normalizeStackTrace stk False g) = [] # P" .
  have hh: "\<not> hasHeader (normalizeStackTrace stk False g)"
    by (simp add: hasHeader_def raw2 lineAt0_def isErrorHeader_def)
  then have fl2: "firstLine (normalizeStackTrace stk False g) = []"
    by (simp add: firstLine_def)
  have "\<not> isBlank (lineAt0 P)"
    using keep [of l0] l0 by (simp add: P_def L lineAt0_def)
  then have cl2: "contentLines (normalizeStackTrace stk False g) = P"
    using hh by (simp add: contentLines_def raw2 stripBlank_empty_line stripBlank_id)
  have sl2: "stackLines (normalizeStackTrace stk False g) False g
           = map (if startsWithAt (lineAt0 P) then chromeLine g else safariLine g) P"
    by (simp add: stackLines_def parsedLines_def cl2 processChromeTrace_def processSafariTrace_def)
  from fl2 cl2 sl2 show ?thesis
    unfolding sl by simp
qed

theorem normalize_twice_lines_witness:
  "\<not> hasHeader ''run@a.js:1:1\<newline>    (native code)'' \<and>
   \<not> isBlank (lineAt0 (rawLines ''run@a.js:1:1\<newline>    (native code)'')) \<and>
   stackLines ''run@a.js:1:1\<newline>    (native code)'' False (\<lambda>t. t)
     = [''  at run  <a.js:1:1>'', ''    (native code)''] \<and>
   stackLines (normalizeStackTrace ''run@a.js:1:1\<newline>    (native code)'' False (\<lambda>t. t)) False (\<lambda>t. t)
     = [''  at <run  <a.js:1:1>>'', ''    (native code)''] \<and>
   length (stackLines (normalizeStackTrace ''run@a.js:1:1\<newline>    (native code)'' False (\<lambda>t. t))
             False (\<lambda>t. t)) = 2"
proof -
  define stk where "stk = ''run@a.js:1:1\<newline>    (native code)''"
  have h1: "\<not> hasHeader stk"
    unfolding stk_def by code_simp
  have h2: "\<not> isBlank (lineAt0 (rawLines stk))"
    unfolding stk_def by code_simp
  have h3: "\<forall>x. CHR 0x0A \<notin> set x \<longrightarrow> CHR 0x0A \<notin> set ((\<lambda>t::string. t) x)"
    by simp
  have s1: "stackLines stk False (\<lambda>t. t) = [''  at run  <a.js:1:1>'', ''    (native code)'']"
    unfolding stk_def by code_simp
  have v: "map (if startsWithAt (lineAt0 [''  at run  <a.js:1:1>'', ''    (native code)''])
                then chromeLine (\<lambda>t. t) else safariLine (\<lambda>t. t))
             [''  at run  <a.js:1:1>'', ''    (native code)'']
           = [''  at <run  <a.js:1:1>>'', ''    (native code)'']"
    by code_simp
  from normalize_twice_lines [OF h1 h2 h3]
  have n: "length (stackLines (normalizeStackTrace stk False (\<lambda>t. t)) False (\<lambda>t. t))
             = length (stackLines stk False (\<lambda>t. t))"
    and m: "stackLines (normalizeStackTrace stk False (\<lambda>t. t)) False (\<lambda>t. t)
           = map (if startsWithAt (lineAt0 (stackLines stk False (\<lambda>t. t)))
                  then chromeLine (\<lambda>t. t) else safariLine (\<lambda>t. t))
               (stackLines stk False (\<lambda>t. t))"
    by blast+
  from m have s2: "stackLines (normalizeStackTrace stk False (\<lambda>t. t)) False (\<lambda>t. t)
              = [''  at <run  <a.js:1:1>>'', ''    (native code)'']"
    unfolding s1 v .
  from n have l2: "length (stackLines (normalizeStackTrace stk False (\<lambda>t. t)) False (\<lambda>t. t)) = 2"
    unfolding s1 by simp
  from h1 h2 s1 s2 l2 show ?thesis
    unfolding stk_def by blast
qed

section \<open>The noise filter\<close>

lemma searchFrom_iff: "searchFrom P s \<longleftrightarrow> (\<exists>a b. s = a @ b \<and> P b)"
proof (induction s)
  case Nil
  show ?case by simp
next
  case (Cons c cs)
  show ?case
  proof
    assume "searchFrom P (c # cs)"
    then have "P (c # cs) \<or> searchFrom P cs" by simp
    then show "\<exists>a b. c # cs = a @ b \<and> P b"
    proof
      assume "P (c # cs)"
      then have "c # cs = [] @ (c # cs) \<and> P (c # cs)" by simp
      then show ?thesis by blast
    next
      assume "searchFrom P cs"
      with Cons obtain a b where "cs = a @ b" "P b" by blast
      then have "c # cs = (c # a) @ b \<and> P b" by simp
      then show ?thesis by blast
    qed
  next
    assume "\<exists>a b. c # cs = a @ b \<and> P b"
    then obtain a b where ab: "c # cs = a @ b" and p: "P b" by blast
    show "searchFrom P (c # cs)"
    proof (cases a)
      case Nil
      with ab p have "P (c # cs)" by simp
      then show ?thesis by simp
    next
      case (Cons d ds)
      with ab have "cs = ds @ b" by simp
      with p Cons.IH show ?thesis by auto
    qed
  qed
qed

lemma contains_iff: "searchFrom (prefix p) s \<longleftrightarrow> (\<exists>a b. s = a @ p @ b)"
  by (auto simp: searchFrom_iff prefix_def)

lemma isNoise_iff:
  "isNoise l \<longleftrightarrow>
     (\<exists>a b. l = a @ ''internal/process/'' @ b) \<or>
     (\<exists>a b. l = a @ ''node_modules/'' @ b \<and> \<not> prefix ''digdug'' b \<and> \<not> prefix ''leadfoot'' b) \<or>
     (\<exists>a b. l = a @ ''Module.runMain'' @ b) \<or>
     (\<exists>a b. l = a @ ''bootstrap_node.js'' @ b)"
proof -
  have nm: "searchFrom (\<lambda>t. prefix ''node_modules/'' t
                       \<and> \<not> (prefix ''digdug'' (drop 13 t) \<or> prefix ''leadfoot'' (drop 13 t))) l
        \<longleftrightarrow> (\<exists>a b. l = a @ ''node_modules/'' @ b \<and> \<not> prefix ''digdug'' b \<and> \<not> prefix ''leadfoot'' b)"
    (is "?L \<longleftrightarrow> ?R")
  proof
    assume ?L
    then obtain a t where l: "l = a @ t" and p: "prefix ''node_modules/'' t"
      and n: "\<not> (prefix ''digdug'' (drop 13 t) \<or> prefix ''leadfoot'' (drop 13 t))"
      unfolding searchFrom_iff by blast
    from p obtain b where t: "t = ''node_modules/'' @ b" by (auto simp: prefix_def)
    then have "drop 13 t = b" by simp
    with n l t show ?R by auto
  next
    assume ?R
    then obtain a b where l: "l = a @ ''node_modules/'' @ b"
      and n: "\<not> prefix ''digdug'' b" "\<not> prefix ''leadfoot'' b" by blast
    have "prefix ''node_modules/'' (''node_modules/'' @ b)" by simp
    moreover have "drop 13 (''node_modules/'' @ b) = b" by simp
    ultimately show ?L
      unfolding searchFrom_iff using l n by (intro exI [of _ a] exI [of _ "''node_modules/'' @ b"]) simp
  qed
  show ?thesis
    unfolding isNoise_def nm contains_iff ..
qed

lemma stripBlank_subset: "set (stripBlank ls) \<subseteq> set ls"
proof (induction ls rule: stripBlank.induct)
  case (1 ls)
  show ?case
  proof (cases "isBlank (lineAt0 ls)")
    case True
    with 1 have "set (stripBlank (drop 1 ls)) \<subseteq> set (drop 1 ls)" by simp
    also have "\<dots> \<subseteq> set ls" by (rule set_drop_subset)
    finally show ?thesis
      using True by (subst stripBlank.simps) simp
  next
    case False
    then show ?thesis by (subst stripBlank.simps) simp
  qed
qed

lemma rawLines_no_nl: "l \<in> set (rawLines stk) \<Longrightarrow> CHR 0x0A \<notin> set l"
  unfolding rawLines_def using splitLines_chars by blast

lemma contentLines_subset: "set (contentLines stk) \<subseteq> set (rawLines stk)"
proof -
  have "set (contentLines stk) \<subseteq> set (if hasHeader stk then drop 1 (rawLines stk) else rawLines stk)"
    unfolding contentLines_def by (rule stripBlank_subset)
  also have "\<dots> \<subseteq> set (rawLines stk)"
    by (auto dest: in_set_dropD)
  finally show ?thesis .
qed

lemma parsedLines_no_nl:
  assumes "\<forall>x. CHR 0x0A \<notin> set x \<longrightarrow> CHR 0x0A \<notin> set (g x)"
    and "p \<in> set (parsedLines stk g)"
  shows "CHR 0x0A \<notin> set p"
proof -
  from assms(2) obtain l where l: "l \<in> set (contentLines stk)"
    and p: "p = chromeLine g l \<or> p = safariLine g l"
    by (auto simp: parsedLines_def processChromeTrace_def processSafariTrace_def split: if_splits)
  from l contentLines_subset have "CHR 0x0A \<notin> set l"
    by (blast dest: rawLines_no_nl)
  with p assms(1) parsed_line_keeps [OF chromeLine_cases [of g l]]
       parsed_line_keeps [OF safariLine_cases [of g l]]
  show ?thesis by blast
qed

lemma set_splitLines_joinLines:
  "\<forall>l\<in>set F. CHR 0x0A \<notin> set l \<Longrightarrow> set (splitLines (joinLines F)) = (if F = [] then {[]} else set F)"
  by (cases "F = []") (simp_all add: splitLines_joinLines)

text \<open>
  The lines of a normalized stack: the empty line that the leading line feed makes, the
  header line if there is one, and the stack lines.
\<close>

lemma normalized_lines:
  assumes "\<forall>l\<in>set (stackLines stk flt g). CHR 0x0A \<notin> set l"
  shows "set (splitLines (normalizeStackTrace stk flt g))
           = {[]} \<union> (if hasHeader stk then {lineAt0 (rawLines stk)} else {})
             \<union> set (stackLines stk flt g)"
proof (cases "hasHeader stk")
  case False
  then have "normalizeStackTrace stk flt g = CHR 0x0A # joinLines (stackLines stk flt g)"
    by (simp add: normalizeStackTrace_def firstLine_def)
  then show ?thesis
    using False set_splitLines_joinLines [OF assms] by auto
next
  case True
  define h where "h = lineAt0 (rawLines stk)"
  have "rawLines stk \<noteq> []"
    by (simp add: rawLines_def splitLines_not_Nil)
  then have "h \<in> set (rawLines stk)"
    unfolding h_def lineAt0_def by (cases "rawLines stk") auto
  then have hn: "CHR 0x0A \<notin> set h" by (rule rawLines_no_nl)
  have "normalizeStackTrace stk flt g = CHR 0x0A # h @ CHR 0x0A # joinLines (stackLines stk flt g)"
    using True by (simp add: normalizeStackTrace_def firstLine_def h_def)
  then have "splitLines (normalizeStackTrace stk flt g)
               = [] # [h] @ splitLines (joinLines (stackLines stk flt g))"
    by (simp add: splitLines_append_nl splitLines_no_nl [OF hn])
  then show ?thesis
    using True set_splitLines_joinLines [OF assms] by (auto simp: h_def)
qed

text \<open>
  C6, as the claim states it, fails in two ways. The header line is a line of the stack that
  is kept apart from the filter: a header that matches a noise pattern is in the output
  with the flag true. And the filter sees a frame only after the source resolver has been
  applied: a frame line that matches a noise pattern is kept with the flag true when the
  resolved frame does not match.
\<close>

theorem noise_filter_counterexample:
  "''Error: cannot load node_modules/x'' \<in> set (splitLines
      ''Error: cannot load node_modules/x\<newline>    at f (a.js:1:1)'') \<and>
   isNoise ''Error: cannot load node_modules/x'' \<and>
   normalizeStackTrace ''Error: cannot load node_modules/x\<newline>    at f (a.js:1:1)'' True (\<lambda>t. t)
     = ''\<newline>Error: cannot load node_modules/x\<newline>  at f  <a.js:1:1>'' \<and>
   ''Error: cannot load node_modules/x'' \<in> set (splitLines
      ''\<newline>Error: cannot load node_modules/x\<newline>  at f  <a.js:1:1>'') \<and>
   isNoise ''    at f (node_modules/x/y.js:1:1)'' \<and>
   normalizeStackTrace ''    at f (node_modules/x/y.js:1:1)'' True (\<lambda>t. ''src/y.ts:1:1'')
     = ''\<newline>  at f  <src/y.ts:1:1>''"
  by code_simp

text \<open>
  C6, amended. The filter looks at the lines that the dialect parser returns, with the
  source already resolved; it does not look at the raw lines of the stack or at the header
  line. A line matches a noise pattern if and only if it contains
  \<^verbatim>\<open>internal/process/\<close>, or \<^verbatim>\<open>node_modules/\<close> at a place where neither
  \<^verbatim>\<open>digdug\<close> nor \<^verbatim>\<open>leadfoot\<close> follows it, or \<^verbatim>\<open>Module.runMain\<close>, or
  \<^verbatim>\<open>bootstrap_node.js\<close>. With the flag true the stack lines are the parsed lines that
  match no pattern, in their order; with the flag false they are all the parsed lines; the
  normalized output is a line feed, the header line if there is one, and the stack lines
  joined. For a source resolver that puts no line feed into a source that has none, the
  lines of the output are therefore: with the flag true the empty line, the header line if
  there is one (whether or not it matches a pattern), and exactly the parsed lines that
  match no pattern; with the flag false the empty line, the header line if there is one,
  and all the parsed lines.
\<close>

theorem noise_filter:
  assumes "\<forall>x. CHR 0x0A \<notin> set x \<longrightarrow> CHR 0x0A \<notin> set (g x)"
  shows "(isNoise l \<longleftrightarrow>
            (\<exists>a b. l = a @ ''internal/process/'' @ b) \<or>
            (\<exists>a b. l = a @ ''node_modules/'' @ b \<and> \<not> prefix ''digdug'' b \<and> \<not> prefix ''leadfoot'' b) \<or>
            (\<exists>a b. l = a @ ''Module.runMain'' @ b) \<or>
            (\<exists>a b. l = a @ ''bootstrap_node.js'' @ b)) \<and>
         stackLines stk True g = filter (\<lambda>x. \<not> isNoise x) (parsedLines stk g) \<and>
         stackLines stk False g = parsedLines stk g \<and>
         normalizeStackTrace stk True g
           = CHR 0x0A # firstLine stk @ joinLines (filter (\<lambda>x. \<not> isNoise x) (parsedLines stk g)) \<and>
         normalizeStackTrace stk False g
           = CHR 0x0A # firstLine stk @ joinLines (parsedLines stk g) \<and>
         set (splitLines (normalizeStackTrace stk True g))
           = {[]} \<union> (if hasHeader stk then {lineAt0 (rawLines stk)} else {})
             \<union> {x \<in> set (parsedLines stk g). \<not> isNoise x} \<and>
         set (splitLines (normalizeStackTrace stk False g))
           = {[]} \<union> (if hasHeader stk then {lineAt0 (rawLines stk)} else {})
             \<union> set (parsedLines stk g)"
proof -
  have st: "stackLines stk True g = filter (\<lambda>x. \<not> isNoise x) (parsedLines stk g)"
    and sf: "stackLines stk False g = parsedLines stk g"
    by (simp_all add: stackLines_def)
  have nt: "\<forall>l\<in>set (stackLines stk True g). CHR 0x0A \<notin> set l"
    unfolding st using parsedLines_no_nl [OF assms] by auto
  have nf: "\<forall>l\<in>set (stackLines stk False g). CHR 0x0A \<notin> set l"
    unfolding sf using parsedLines_no_nl [OF assms] by auto
  have lt: "set (splitLines (normalizeStackTrace stk True g))
           = {[]} \<union> (if hasHeader stk then {lineAt0 (rawLines stk)} else {})
             \<union> {x \<in> set (parsedLines stk g). \<not> isNoise x}"
    unfolding normalized_lines [OF nt] st by simp
  have lf: "set (splitLines (normalizeStackTrace stk False g))
           = {[]} \<union> (if hasHeader stk then {lineAt0 (rawLines stk)} else {})
             \<union> set (parsedLines stk g)"
    unfolding normalized_lines [OF nf] sf by simp
  show ?thesis
    using isNoise_iff [of l] st sf lt lf
    by (simp only: normalizeStackTrace_filtered normalizeStackTrace_unfiltered simp_thms)
qed

theorem noise_filter_witness:
  "isNoise ''  at g  <internal/process/next_tick.js:2:2>'' \<and>
   normalizeStackTrace
      (''    at f (a.js:1:1)\<newline>    at g (internal/process/next_tick.js:2:2)\<newline>'' @
       ''    at h (node_modules/foo/x.js:3:3)\<newline>    at i (node_modules/digdug/y.js:4:4)\<newline>'' @
       ''    at Module.runMain (module.js:5:5)\<newline>    at startup (bootstrap_node.js:6:6)'') True (\<lambda>t. t)
     = ''\<newline>  at f  <a.js:1:1>\<newline>  at i  <node_modules/digdug/y.js:4:4>'' \<and>
   normalizeStackTrace
      (''    at f (a.js:1:1)\<newline>    at g (internal/process/next_tick.js:2:2)\<newline>'' @
       ''    at h (node_modules/foo/x.js:3:3)\<newline>    at i (node_modules/digdug/y.js:4:4)\<newline>'' @
       ''    at Module.runMain (module.js:5:5)\<newline>    at startup (bootstrap_node.js:6:6)'') False (\<lambda>t. t)
     = ''\<newline>  at f  <a.js:1:1>\<newline>  at g  <internal/process/next_tick.js:2:2>\<newline>'' @
       ''  at h  <node_modules/foo/x.js:3:3>\<newline>  at i  <node_modules/digdug/y.js:4:4>\<newline>'' @
       ''  at Module.runMain  <module.js:5:5>\<newline>  at startup  <bootstrap_node.js:6:6>'' \<and>
   ''  at g  <internal/process/next_tick.js:2:2>'' \<notin> set (splitLines (normalizeStackTrace
      (''    at f (a.js:1:1)\<newline>    at g (internal/process/next_tick.js:2:2)\<newline>'' @
       ''    at h (node_modules/foo/x.js:3:3)\<newline>    at i (node_modules/digdug/y.js:4:4)\<newline>'' @
       ''    at Module.runMain (module.js:5:5)\<newline>    at startup (bootstrap_node.js:6:6)'') True (\<lambda>t. t))) \<and>
   ''  at g  <internal/process/next_tick.js:2:2>'' \<in> set (splitLines (normalizeStackTrace
      (''    at f (a.js:1:1)\<newline>    at g (internal/process/next_tick.js:2:2)\<newline>'' @
       ''    at h (node_modules/foo/x.js:3:3)\<newline>    at i (node_modules/digdug/y.js:4:4)\<newline>'' @
       ''    at Module.runMain (module.js:5:5)\<newline>    at startup (bootstrap_node.js:6:6)'') False (\<lambda>t. t)))"
proof -
  define stk where "stk =
      ''    at f (a.js:1:1)\<newline>    at g (internal/process/next_tick.js:2:2)\<newline>'' @
      ''    at h (node_modules/foo/x.js:3:3)\<newline>    at i (node_modules/digdug/y.js:4:4)\<newline>'' @
      ''    at Module.runMain (module.js:5:5)\<newline>    at startup (bootstrap_node.js:6:6)''"
  define P where "P =
     [''  at f  <a.js:1:1>'', ''  at g  <internal/process/next_tick.js:2:2>'',
      ''  at h  <node_modules/foo/x.js:3:3>'', ''  at i  <node_modules/digdug/y.js:4:4>'',
      ''  at Module.runMain  <module.js:5:5>'', ''  at startup  <bootstrap_node.js:6:6>'']"
  have h: "\<forall>x. CHR 0x0A \<notin> set x \<longrightarrow> CHR 0x0A \<notin> set ((\<lambda>t :: string. t) x)"
    by simp
  have p: "parsedLines stk (\<lambda>t. t) = P"
    unfolding stk_def P_def by code_simp
  have f: "firstLine stk = []"
    unfolding stk_def by code_simp
  have hh: "\<not> hasHeader stk"
    unfolding stk_def by code_simp
  have n: "isNoise ''  at g  <internal/process/next_tick.js:2:2>''"
    by code_simp
  have k: "filter (\<lambda>x. \<not> isNoise x) P
     = [''  at f  <a.js:1:1>'', ''  at i  <node_modules/digdug/y.js:4:4>'']"
    unfolding P_def by code_simp
  note T = noise_filter [OF h, where stk = stk and l = "''  at g  <internal/process/next_tick.js:2:2>''"]
  from T have t: "normalizeStackTrace stk True (\<lambda>t. t)
       = CHR 0x0A # firstLine stk @ joinLines (filter (\<lambda>x. \<not> isNoise x) (parsedLines stk (\<lambda>t. t)))"
    by (elim conjE)
  from T have u: "normalizeStackTrace stk False (\<lambda>t. t)
       = CHR 0x0A # firstLine stk @ joinLines (parsedLines stk (\<lambda>t. t))"
    by (elim conjE)
  from T have lt: "set (splitLines (normalizeStackTrace stk True (\<lambda>t. t)))
           = {[]} \<union> (if hasHeader stk then {lineAt0 (rawLines stk)} else {})
             \<union> {x \<in> set (parsedLines stk (\<lambda>t. t)). \<not> isNoise x}"
    by (elim conjE)
  from T have lf: "set (splitLines (normalizeStackTrace stk False (\<lambda>t. t)))
           = {[]} \<union> (if hasHeader stk then {lineAt0 (rawLines stk)} else {})
             \<union> set (parsedLines stk (\<lambda>t. t))"
    by (elim conjE)
  have t': "normalizeStackTrace stk True (\<lambda>t. t)
     = ''\<newline>  at f  <a.js:1:1>\<newline>  at i  <node_modules/digdug/y.js:4:4>''"
    unfolding t f p k by simp
  have u': "normalizeStackTrace stk False (\<lambda>t. t)
     = ''\<newline>  at f  <a.js:1:1>\<newline>  at g  <internal/process/next_tick.js:2:2>\<newline>'' @
       ''  at h  <node_modules/foo/x.js:3:3>\<newline>  at i  <node_modules/digdug/y.js:4:4>\<newline>'' @
       ''  at Module.runMain  <module.js:5:5>\<newline>  at startup  <bootstrap_node.js:6:6>''"
    unfolding u f p P_def by simp
  have a: "''  at g  <internal/process/next_tick.js:2:2>'' \<notin> set (splitLines (normalizeStackTrace stk True (\<lambda>t. t)))"
    unfolding lt using hh n by simp
  have b: "''  at g  <internal/process/next_tick.js:2:2>'' \<in> set (splitLines (normalizeStackTrace stk False (\<lambda>t. t)))"
    unfolding lf p P_def using hh by simp
  show ?thesis
    unfolding stk_def [symmetric]
    by (intro conjI n t' u' a b)
qed

end
